(* ===== verification/Prelude.thy ===== *)
theory Prelude
  imports Main "HOL-Library.Sublist"
begin

text \<open>
  Shared vocabulary of the development: the types that name the model's values, the
  JavaScript string builtins that \<^verbatim>\<open>src/toc.js\<close> calls
  (\<^verbatim>\<open>startsWith\<close>, \<^verbatim>\<open>endsWith\<close>, \<^verbatim>\<open>split("#")[0]\<close>), and the ASCII
  whitespace tokeniser and space joiner that the DOM uses for \<^verbatim>\<open>classList\<close>
  (the ordered-set parser and serializer of the DOM standard). These are library
  behaviour the program relies on, not code of the repository; the lemmas here are the
  generic facts on lists and strings that the component theories share, the central one
  being the round trip \<open>split_ws (join_sp ts) = ts\<close> for well-formed tokens.
\<close>

named_theorems js_simps "evaluation rules of the JavaScript string builtins"

type_synonym DOMString = string
type_synonym path = "nat list"

subsection \<open>String builtins\<close>

definition js_starts_with :: "string \<Rightarrow> string \<Rightarrow> bool" where
  "js_starts_with s p \<longleftrightarrow> prefix p s"

definition js_ends_with :: "string \<Rightarrow> string \<Rightarrow> bool" where
  "js_ends_with s p \<longleftrightarrow> suffix p s"

text \<open>\<^verbatim>\<open>s.split(c)[0]\<close>: the part of \<open>s\<close> before the first \<open>c\<close> (all of \<open>s\<close>
  when there is none).\<close>

definition js_split_first :: "string \<Rightarrow> char \<Rightarrow> string" where
  "js_split_first s c = takeWhile (\<lambda>x. x \<noteq> c) s"

definition ascii_upper :: "char \<Rightarrow> char" where
  "ascii_upper c =
     (case map_of (zip ''abcdefghijklmnopqrstuvwxyz'' ''ABCDEFGHIJKLMNOPQRSTUVWXYZ'') c of
        Some u \<Rightarrow> u
      | None \<Rightarrow> c)"

subsection \<open>ASCII whitespace tokens\<close>

definition is_ws :: "char \<Rightarrow> bool" where
  "is_ws c \<longleftrightarrow> c = CHR '' '' \<or> c = CHR 0x09 \<or> c = CHR 0x0A \<or> c = CHR 0x0C \<or> c = CHR 0x0D"

function split_ws :: "string \<Rightarrow> string list" where
  "split_ws s =
     (let s' = dropWhile is_ws s in
      if s' = [] then []
      else takeWhile (\<lambda>c. \<not> is_ws c) s' # split_ws (dropWhile (\<lambda>c. \<not> is_ws c) s'))"
  by pat_completeness auto
termination
proof (relation "measure length")
  fix s s' :: string
  assume s': "s' = dropWhile is_ws s" and ne: "s' \<noteq> []"
  then obtain c r where cr: "s' = c # r"
    by (meson neq_Nil_conv)
  have c: "\<not> is_ws c"
    using hd_dropWhile [of is_ws s] ne s' cr by (metis list.sel(1))
  have "length (dropWhile (\<lambda>c. \<not> is_ws c) s') \<le> length r"
    using c by (simp add: cr length_dropWhile_le)
  also have "length r < length s"
  proof -
    have "length s' \<le> length s" using s' by (simp add: length_dropWhile_le)
    then show ?thesis using cr by simp
  qed
  finally show "(dropWhile (\<lambda>c. \<not> is_ws c) s', s) \<in> measure length" by simp
qed simp

declare split_ws.simps [simp del]

fun join_sp :: "string list \<Rightarrow> string" where
  "join_sp [] = []"
| "join_sp [t] = t"
| "join_sp (t # ts) = t @ CHR '' '' # join_sp ts"

text \<open>A token as the tokeniser produces it: non-empty, without whitespace.\<close>

definition ws_token :: "string \<Rightarrow> bool" where
  "ws_token t \<longleftrightarrow> t \<noteq> [] \<and> (\<forall>c \<in> set t. \<not> is_ws c)"

text \<open>The ordered-set parser keeps the first occurrence of each token.\<close>

function dedup :: "'a list \<Rightarrow> 'a list" where
  "dedup [] = []"
| "dedup (x # xs) = x # dedup (removeAll x xs)"
  by pat_completeness auto
termination
  by (relation "measure length") (auto simp: le_imp_less_Suc)

subsection \<open>Lemmas\<close>

lemma js_ends_with_append [js_simps]: "js_ends_with (u @ p) p"
  by (simp add: js_ends_with_def suffixI)

lemma js_split_first_no_sep [js_simps]: "c \<notin> set s \<Longrightarrow> js_split_first s c = s"
  by (auto simp: js_split_first_def takeWhile_eq_all_conv)

lemma js_split_first_sep [js_simps]: "c \<notin> set u \<Longrightarrow> js_split_first (u @ c # r) c = u"
  unfolding js_split_first_def by (induction u) auto

lemma js_split_first_notin: "c \<notin> set (js_split_first s c)"
  by (simp add: js_split_first_def) (metis (mono_tags) set_takeWhileD)

lemma js_split_first_prefix: "prefix (js_split_first s c) s"
  by (simp add: js_split_first_def takeWhile_is_prefix)

lemma is_ws_space [simp]: "is_ws CHR '' ''"
  by (simp add: is_ws_def)

lemma split_ws_Nil [simp]: "split_ws [] = []"
  by (simp only: split_ws.simps [of "[]"] Let_def) simp

lemma split_ws_ws_Cons:
  assumes "is_ws c"
  shows "split_ws (c # r) = split_ws r"
proof -
  have "dropWhile is_ws (c # r) = dropWhile is_ws r" using assms by simp
  then show ?thesis by (simp only: split_ws.simps [of "c # r"] split_ws.simps [of r])
qed

lemma split_ws_token_append:
  assumes "ws_token t" and "r = [] \<or> is_ws (hd r)"
  shows "split_ws (t @ r) = t # split_ws r"
proof -
  from assms(1) obtain c u where t: "t = c # u" and c: "\<not> is_ws c"
    by (cases t) (auto simp: ws_token_def)
  have nows: "\<forall>x \<in> set t. \<not> is_ws x" using assms(1) by (simp add: ws_token_def)
  have dw: "dropWhile is_ws (t @ r) = t @ r" using t c by simp
  have tw: "takeWhile (\<lambda>c. \<not> is_ws c) (t @ r) = t"
    using nows assms(2) by (cases r) (auto simp: takeWhile_append2)
  have dw2: "dropWhile (\<lambda>c. \<not> is_ws c) (t @ r) = r"
    using nows assms(2) by (cases r) (auto simp: dropWhile_append3)
  show ?thesis
    by (simp only: split_ws.simps [of "t @ r"] Let_def dw tw dw2) (simp add: t)
qed

theorem split_ws_join_sp: "\<forall>t \<in> set ts. ws_token t \<Longrightarrow> split_ws (join_sp ts) = ts"
proof (induction ts rule: join_sp.induct)
  case 1
  then show ?case by simp
next
  case (2 t)
  then show ?case using split_ws_token_append [of t "[]"] by simp
next
  case (3 t u us)
  then have "split_ws (join_sp (t # u # us)) = t # split_ws (CHR '' '' # join_sp (u # us))"
    using split_ws_token_append [of t "CHR '' '' # join_sp (u # us)"] by simp
  then show ?case using 3 by (simp add: split_ws_ws_Cons)
qed

lemma split_ws_tokens: "t \<in> set (split_ws s) \<Longrightarrow> ws_token t"
proof (induction s rule: split_ws.induct)
  case (1 s)
  let ?s' = "dropWhile is_ws s"
  show ?case
  proof (cases "?s' = []")
    case True
    with "1.prems" show ?thesis by (simp add: split_ws.simps [of s])
  next
    case False
    then obtain c r where cr: "?s' = c # r"
      by (meson neq_Nil_conv)
    have c: "\<not> is_ws c"
      using hd_dropWhile [of is_ws s] False cr by simp
    have head: "ws_token (takeWhile (\<lambda>c. \<not> is_ws c) ?s')"
      using cr c by (auto simp: ws_token_def dest: set_takeWhileD)
    have "t \<in> set (takeWhile (\<lambda>c. \<not> is_ws c) ?s' # split_ws (dropWhile (\<lambda>c. \<not> is_ws c) ?s'))"
      using "1.prems" by (simp only: split_ws.simps [of s] Let_def if_not_P [OF False])
    then show ?thesis
      using head "1.IH" [OF refl False] by auto
  qed
qed

lemma set_dedup [simp]: "set (dedup xs) = set xs"
  by (induction xs rule: dedup.induct) auto

lemma distinct_dedup [simp]: "distinct (dedup xs)"
  by (induction xs rule: dedup.induct) auto

lemma dedup_distinct: "distinct xs \<Longrightarrow> dedup xs = xs"
  by (induction xs rule: dedup.induct) (auto simp: removeAll_id)

lemma ws_token_not_ws [simp]: "ws_token t \<Longrightarrow> c \<in> set t \<Longrightarrow> \<not> is_ws c"
  by (simp add: ws_token_def)

lemma comparable_butlast:
  "prefix h (xs @ [x]) \<or> prefix (xs @ [x]) h \<Longrightarrow> prefix h xs \<or> prefix xs h"
  by (metis prefix_order.trans prefix_snoc prefix_order.refl)

lemma prefix_take_length: "prefix q h \<Longrightarrow> take (length q) h = q"
  by (metis append_eq_conv_conj prefix_def)

lemma strict_prefix_butlast: "prefix h p \<Longrightarrow> p \<noteq> h \<Longrightarrow> prefix h (butlast p)"
  by (metis append_butlast_last_id prefix_Nil prefix_snoc)

lemma take_strict_prefix_less: "k < length t \<Longrightarrow> strict_prefix (take k t) t"
  by (metis length_take min.absorb4 nat_less_le strict_prefix_def take_is_prefix)

end
