(* ===== verification/Dom.thy ===== *)
theory Dom
  imports Prelude "HOL-Library.AList"
begin

text \<open>
  The part of the DOM that \<^verbatim>\<open>src/toc.js\<close> touches, as a tree addressed by paths.
  A node is an element (local name, attributes in document order, children) or a text
  node; the document is its document element, and an element is named by the list of
  child indexes leading to it from there. The DOM operations the script calls are
  functions on that tree: \<^verbatim>\<open>getAttribute\<close>/\<^verbatim>\<open>setAttribute\<close>, \<^verbatim>\<open>classList\<close>
  (\<^verbatim>\<open>contains\<close>, \<^verbatim>\<open>add\<close>, \<^verbatim>\<open>toggle\<close>, through the token parser and serializer
  of the prelude), \<^verbatim>\<open>tagName\<close>, \<^verbatim>\<open>parentElement\<close>,
  \<^verbatim>\<open>previousElementSibling\<close>, and the selector queries in tree order.
  This is the browser's behaviour, modelled from the DOM standard; the script's own code
  is in the later theories.

  The lemmas say how an update at one path acts on the tree: an update that changes only
  the attributes of one element leaves the tree's skeleton (names and children, without
  attributes) unchanged, and leaves the attributes of every other element as they were.
  Every structural query is a function of the skeleton, so it gives the same answer after
  such an update.
\<close>

datatype node =
    Element DOMString "(DOMString \<times> DOMString) list" "node list"
  | Text DOMString

subsection \<open>Paths\<close>

primrec node_at :: "node \<Rightarrow> path \<Rightarrow> node option" where
  "node_at n [] = Some n"
| "node_at n (i # is) =
     (case n of
        Element t as cs \<Rightarrow> if i < length cs then node_at (cs ! i) is else None
      | Text s \<Rightarrow> None)"

primrec update_at :: "path \<Rightarrow> (node \<Rightarrow> node) \<Rightarrow> node \<Rightarrow> node" where
  "update_at [] f n = f n"
| "update_at (i # is) f n =
     (case n of
        Element t as cs \<Rightarrow> Element t as (cs[i := update_at is f (cs ! i)])
      | Text s \<Rightarrow> Text s)"

subsection \<open>Elements, attributes, class lists\<close>

fun is_element :: "node \<Rightarrow> bool" where
  "is_element (Element t as cs) = True"
| "is_element (Text s) = False"

text \<open>\<^verbatim>\<open>tagName\<close> of an HTML element: its local name in ASCII upper case.\<close>

fun tag_name :: "node \<Rightarrow> DOMString" where
  "tag_name (Element t as cs) = map ascii_upper t"
| "tag_name (Text s) = []"

fun attrs :: "node \<Rightarrow> (DOMString \<times> DOMString) list" where
  "attrs (Element t as cs) = as"
| "attrs (Text s) = []"

fun modify_attrs :: "((DOMString \<times> DOMString) list \<Rightarrow> (DOMString \<times> DOMString) list) \<Rightarrow> node \<Rightarrow> node" where
  "modify_attrs g (Element t as cs) = Element t (g as) cs"
| "modify_attrs g (Text s) = Text s"

definition get_attr :: "node \<Rightarrow> DOMString \<Rightarrow> DOMString option" where
  "get_attr n k = map_of (attrs n) k"

definition set_attr :: "DOMString \<Rightarrow> DOMString \<Rightarrow> node \<Rightarrow> node" where
  "set_attr k v = modify_attrs (AList.update k v)"

definition class_tokens_of :: "(DOMString \<times> DOMString) list \<Rightarrow> DOMString list" where
  "class_tokens_of as = dedup (split_ws (case map_of as ''class'' of Some v \<Rightarrow> v | None \<Rightarrow> []))"

definition has_class :: "node \<Rightarrow> DOMString \<Rightarrow> bool" where
  "has_class n t \<longleftrightarrow> t \<in> set (class_tokens_of (attrs n))"

text \<open>\<^verbatim>\<open>classList.add(t)\<close>: append the token if it is missing, then write the
  serialized token set back to the \<^verbatim>\<open>class\<close> attribute.\<close>

definition add_class_attrs :: "DOMString \<Rightarrow> (DOMString \<times> DOMString) list \<Rightarrow> (DOMString \<times> DOMString) list" where
  "add_class_attrs t as =
     (let ts = class_tokens_of as in
      AList.update ''class'' (join_sp (if t \<in> set ts then ts else ts @ [t])) as)"

definition add_class :: "DOMString \<Rightarrow> node \<Rightarrow> node" where
  "add_class t = modify_attrs (add_class_attrs t)"

text \<open>\<^verbatim>\<open>classList.toggle(t)\<close>: remove the token if present, append it otherwise.\<close>

definition toggle_class_attrs :: "DOMString \<Rightarrow> (DOMString \<times> DOMString) list \<Rightarrow> (DOMString \<times> DOMString) list" where
  "toggle_class_attrs t as =
     (let ts = class_tokens_of as in
      AList.update ''class'' (join_sp (if t \<in> set ts then removeAll t ts else ts @ [t])) as)"

definition toggle_class :: "DOMString \<Rightarrow> node \<Rightarrow> node" where
  "toggle_class t = modify_attrs (toggle_class_attrs t)"

text \<open>Reading through a path: the attribute lists and the properties of the element there.\<close>

definition attrs_at :: "node \<Rightarrow> path \<Rightarrow> (DOMString \<times> DOMString) list option" where
  "attrs_at d p = (case node_at d p of Some (Element t as cs) \<Rightarrow> Some as | _ \<Rightarrow> None)"

definition attr_at :: "node \<Rightarrow> path \<Rightarrow> DOMString \<Rightarrow> DOMString option" where
  "attr_at d p k = (case attrs_at d p of Some as \<Rightarrow> map_of as k | None \<Rightarrow> None)"

definition class_at :: "node \<Rightarrow> path \<Rightarrow> DOMString \<Rightarrow> bool" where
  "class_at d p t \<longleftrightarrow> (case attrs_at d p of Some as \<Rightarrow> t \<in> set (class_tokens_of as) | None \<Rightarrow> False)"

definition tag_at :: "node \<Rightarrow> path \<Rightarrow> DOMString option" where
  "tag_at d p = (case node_at d p of Some (Element t as cs) \<Rightarrow> Some (map ascii_upper t) | _ \<Rightarrow> None)"

definition elem_at :: "node \<Rightarrow> path \<Rightarrow> bool" where
  "elem_at d p \<longleftrightarrow> (case node_at d p of Some n \<Rightarrow> is_element n | None \<Rightarrow> False)"

subsection \<open>Tree navigation and queries\<close>

text \<open>\<^verbatim>\<open>parentElement\<close> of an element: the document element has none.\<close>

definition parent_path :: "path \<Rightarrow> path option" where
  "parent_path p = (if p = [] then None else Some (butlast p))"

text \<open>\<^verbatim>\<open>previousElementSibling\<close>: the nearest earlier sibling that is an element.\<close>

definition prev_elem_sibling :: "node \<Rightarrow> path \<Rightarrow> path option" where
  "prev_elem_sibling d p =
     (if p = [] then None
      else case node_at d (butlast p) of
        Some (Element t as cs) \<Rightarrow>
          (case filter (\<lambda>j. is_element (cs ! j)) [0..<min (last p) (length cs)] of
             [] \<Rightarrow> None
           | js \<Rightarrow> Some (butlast p @ [last js]))
      | _ \<Rightarrow> None)"

text \<open>The elements of a tree in tree order (preorder), as paths from its root.\<close>

fun elem_paths :: "node \<Rightarrow> path list"
  and elem_paths_from :: "nat \<Rightarrow> node list \<Rightarrow> path list" where
  "elem_paths (Text s) = []"
| "elem_paths (Element t as cs) = [] # elem_paths_from 0 cs"
| "elem_paths_from i [] = []"
| "elem_paths_from i (c # cs) = map (Cons i) (elem_paths c) @ elem_paths_from (Suc i) cs"

text \<open>\<^verbatim>\<open>el.querySelectorAll(sel)\<close> searches the descendants of \<open>el\<close>, in tree order.\<close>

definition descendants :: "node \<Rightarrow> path \<Rightarrow> path list" where
  "descendants d p =
     (case node_at d p of
        Some (Element t as cs) \<Rightarrow> map (\<lambda>q. p @ q) (elem_paths_from 0 cs)
      | _ \<Rightarrow> [])"

text \<open>Whether a strict ancestor of \<open>p\<close> has the given \<^verbatim>\<open>id\<close> (the descendant
  combinator of \<^verbatim>\<open>#sidebar ...\<close>).\<close>

definition under_id :: "node \<Rightarrow> DOMString \<Rightarrow> path \<Rightarrow> bool" where
  "under_id d ident p \<longleftrightarrow> list_ex (\<lambda>k. attr_at d (take k p) ''id'' = Some ident) [0..<length p]"

text \<open>The \<^verbatim>\<open>innerHTML\<close> setter, once the markup is parsed: the children are replaced.\<close>

fun set_children :: "node list \<Rightarrow> node \<Rightarrow> node" where
  "set_children cs' (Element t as cs) = Element t as cs'"
| "set_children cs' (Text s) = Text s"

text \<open>The skeleton of a tree: local names and children, attributes erased.\<close>

fun skel :: "node \<Rightarrow> node" where
  "skel (Element t as cs) = Element t [] (map skel cs)"
| "skel (Text s) = Text s"

text \<open>Well-formed trees: in every element the attribute names are distinct, as in the
  DOM, where an element's attributes form a map from names to values.\<close>

fun wf_node :: "node \<Rightarrow> bool"
  and wf_nodes :: "node list \<Rightarrow> bool" where
  "wf_node (Element t as cs) \<longleftrightarrow> distinct (map fst as) \<and> wf_nodes cs"
| "wf_node (Text s) \<longleftrightarrow> True"
| "wf_nodes [] \<longleftrightarrow> True"
| "wf_nodes (c # cs) \<longleftrightarrow> wf_node c \<and> wf_nodes cs"

subsection \<open>Skeletons: what attribute updates leave unchanged\<close>

lemma skel_modify_attrs [simp]: "skel (modify_attrs g n) = skel n"
  by (cases n) simp_all

lemma node_at_skel: "node_at (skel d) p = map_option skel (node_at d p)"
proof (induction p arbitrary: d)
  case Nil
  then show ?case by simp
next
  case (Cons i p)
  then show ?case by (cases d) simp_all
qed

theorem skel_update_at:
  assumes "\<And>n. skel (f n) = skel n"
  shows "skel (update_at p f d) = skel d"
proof (induction p arbitrary: d)
  case Nil
  then show ?case using assms by simp
next
  case (Cons i p)
  show ?case
  proof (cases d)
    case (Element t as cs)
    have "map skel (cs[i := update_at p f (cs ! i)]) = map skel cs"
    proof (cases "i < length cs")
      case True
      then show ?thesis using Cons.IH by (metis list_update_id map_update nth_map)
    next
      case False
      then show ?thesis by (simp add: list_update_beyond)
    qed
    then show ?thesis using Element by simp
  next
    case (Text s)
    then show ?thesis by simp
  qed
qed

lemma attrs_at_update_at:
  "attrs_at (update_at p (modify_attrs g) d) q =
     (if q = p then map_option g (attrs_at d q) else attrs_at d q)"
proof (induction p arbitrary: d q)
  case Nil
  show ?case
  proof (cases q)
    case Nil
    then show ?thesis by (cases d) (simp_all add: attrs_at_def)
  next
    case (Cons j q')
    then show ?thesis by (cases d) (simp_all add: attrs_at_def)
  qed
next
  case (Cons i p)
  show ?case
  proof (cases d)
    case (Element t as cs)
    show ?thesis
    proof (cases q)
      case Nil
      then show ?thesis using Element by (simp add: attrs_at_def)
    next
      case (Cons j q')
      show ?thesis
      proof (cases "j = i \<and> i < length cs")
        case True
        then show ?thesis
          using Cons.IH [of "cs ! i" q'] Element \<open>q = j # q'\<close> by (simp add: attrs_at_def)
      next
        case False
        then show ?thesis
          using Element \<open>q = j # q'\<close> by (auto simp: attrs_at_def nth_list_update_neq)
      qed
    qed
  next
    case (Text s)
    then show ?thesis by (cases q) (simp_all add: attrs_at_def)
  qed
qed

lemma attr_at_update_at:
  "attr_at (update_at p (modify_attrs g) d) q k =
     (if q = p then (case attrs_at d q of Some as \<Rightarrow> map_of (g as) k | None \<Rightarrow> None)
      else attr_at d q k)"
  by (simp add: attr_at_def attrs_at_update_at split: option.splits)

lemma class_at_update_at:
  "class_at (update_at p (modify_attrs g) d) q t \<longleftrightarrow>
     (if q = p then (case attrs_at d q of Some as \<Rightarrow> t \<in> set (class_tokens_of (g as)) | None \<Rightarrow> False)
      else class_at d q t)"
  by (simp add: class_at_def attrs_at_update_at split: option.splits)

text \<open>Every structural query reads only the skeleton.\<close>

lemma elem_paths_skel: "elem_paths (skel n) = elem_paths n"
  and elem_paths_from_skel: "elem_paths_from i (map skel cs) = elem_paths_from i cs"
  by (induction n and i cs rule: elem_paths_elem_paths_from.induct) simp_all

lemma tag_at_skel: "tag_at (skel d) p = tag_at d p"
  by (auto simp: tag_at_def node_at_skel split: option.splits node.splits)

lemma elem_at_skel: "elem_at (skel d) p = elem_at d p"
proof -
  have "is_element (skel n) = is_element n" for n by (cases n) simp_all
  then show ?thesis by (simp add: elem_at_def node_at_skel split: option.splits)
qed

lemma descendants_skel: "descendants (skel d) p = descendants d p"
  by (auto simp: descendants_def node_at_skel elem_paths_from_skel split: option.splits node.splits)

lemma prev_elem_sibling_skel: "prev_elem_sibling (skel d) p = prev_elem_sibling d p"
proof -
  have el: "is_element (skel n) = is_element n" for n by (cases n) simp_all
  have "filter (\<lambda>j. is_element (map skel cs ! j)) [0..<min i (length cs)] =
        filter (\<lambda>j. is_element (cs ! j)) [0..<min i (length cs)]" for cs :: "node list" and i
    by (rule filter_cong) (simp_all add: el)
  then show ?thesis
    by (auto simp: prev_elem_sibling_def node_at_skel split: option.splits node.splits)
qed

lemmas skel_queries = elem_paths_skel tag_at_skel elem_at_skel descendants_skel prev_elem_sibling_skel

lemma same_skel_queries:
  assumes "skel d' = skel d"
  shows "elem_paths d' = elem_paths d" and "tag_at d' = tag_at d" and "elem_at d' = elem_at d"
    and "descendants d' = descendants d" and "prev_elem_sibling d' = prev_elem_sibling d"
proof -
  show "elem_paths d' = elem_paths d" by (metis assms elem_paths_skel)
  show "tag_at d' = tag_at d" by (rule ext) (metis assms tag_at_skel)
  show "elem_at d' = elem_at d" by (rule ext) (metis assms elem_at_skel)
  show "descendants d' = descendants d" by (rule ext) (metis assms descendants_skel)
  show "prev_elem_sibling d' = prev_elem_sibling d" by (rule ext) (metis assms prev_elem_sibling_skel)
qed

subsection \<open>Class lists\<close>

lemma class_tokens_ws: "u \<in> set (class_tokens_of as) \<Longrightarrow> ws_token u"
  by (simp add: class_tokens_of_def split_ws_tokens)

lemma distinct_class_tokens [simp]: "distinct (class_tokens_of as)"
  by (simp add: class_tokens_of_def)

lemma class_tokens_of_write:
  assumes "\<forall>u \<in> set ts. ws_token u" and "distinct ts"
  shows "class_tokens_of (AList.update ''class'' (join_sp ts) as) = ts"
  using assms by (simp add: class_tokens_of_def update_conv' split_ws_join_sp dedup_distinct)

lemma class_tokens_add:
  "ws_token t \<Longrightarrow> class_tokens_of (add_class_attrs t as) =
     (if t \<in> set (class_tokens_of as) then class_tokens_of as else class_tokens_of as @ [t])"
  by (auto simp: add_class_attrs_def Let_def intro!: class_tokens_of_write dest: class_tokens_ws)

lemma class_tokens_toggle:
  "ws_token t \<Longrightarrow> class_tokens_of (toggle_class_attrs t as) =
     (if t \<in> set (class_tokens_of as) then removeAll t (class_tokens_of as) else class_tokens_of as @ [t])"
  by (auto simp: toggle_class_attrs_def Let_def distinct_removeAll
           intro!: class_tokens_of_write dest: class_tokens_ws)

lemma map_of_add_class_attrs [simp]: "k \<noteq> ''class'' \<Longrightarrow> map_of (add_class_attrs t as) k = map_of as k"
  by (simp add: add_class_attrs_def Let_def update_conv')

lemma map_of_toggle_class_attrs [simp]: "k \<noteq> ''class'' \<Longrightarrow> map_of (toggle_class_attrs t as) k = map_of as k"
  by (simp add: toggle_class_attrs_def Let_def update_conv')

lemma attrs_at_elem_at: "(attrs_at d p \<noteq> None) = elem_at d p"
  by (auto simp: attrs_at_def elem_at_def split: option.splits node.splits)

theorem class_at_add_class:
  assumes "ws_token t"
  shows "class_at (update_at p (add_class t) d) q u \<longleftrightarrow> class_at d q u \<or> (q = p \<and> u = t \<and> elem_at d p)"
proof (cases "q = p")
  case True
  then show ?thesis using assms attrs_at_elem_at [of d p]
    by (auto simp: add_class_def class_at_update_at class_tokens_add class_at_def [of d] split: option.splits)
next
  case False
  then show ?thesis by (simp add: add_class_def class_at_update_at)
qed

theorem class_at_toggle_class:
  assumes "ws_token t"
  shows "class_at (update_at p (toggle_class t) d) q u \<longleftrightarrow>
           (if q = p \<and> u = t \<and> elem_at d p then \<not> class_at d q u else class_at d q u)"
proof (cases "q = p")
  case True
  then show ?thesis using assms attrs_at_elem_at [of d p]
    by (auto simp: toggle_class_def class_at_update_at class_tokens_toggle class_at_def [of d] split: option.splits)
next
  case False
  then show ?thesis by (simp add: toggle_class_def class_at_update_at)
qed

lemma attr_at_add_class [simp]:
  "k \<noteq> ''class'' \<Longrightarrow> attr_at (update_at p (add_class t) d) q k = attr_at d q k"
  by (simp add: add_class_def attr_at_update_at attr_at_def [of d] split: option.splits)

lemma attr_at_toggle_class [simp]:
  "k \<noteq> ''class'' \<Longrightarrow> attr_at (update_at p (toggle_class t) d) q k = attr_at d q k"
  by (simp add: toggle_class_def attr_at_update_at attr_at_def [of d] split: option.splits)

lemma skel_add_class [simp]: "skel (update_at p (add_class t) d) = skel d"
  by (simp add: add_class_def skel_update_at)

lemma skel_toggle_class [simp]: "skel (update_at p (toggle_class t) d) = skel d"
  by (simp add: toggle_class_def skel_update_at)

lemma skel_set_attr [simp]: "skel (update_at p (set_attr k v) d) = skel d"
  by (simp add: set_attr_def skel_update_at)

lemma class_at_set_attr [simp]:
  assumes "k \<noteq> ''class''"
  shows "class_at (update_at p (set_attr k v) d) q u = class_at d q u"
proof (cases "q = p")
  case True
  have "''class'' \<noteq> k" using assms by simp
  with True show ?thesis
    by (simp add: set_attr_def class_at_update_at class_at_def [of d] class_tokens_of_def update_conv'
             split: option.splits)
next
  case False
  then show ?thesis by (simp add: set_attr_def class_at_update_at)
qed

lemma attr_at_set_attr:
  "attr_at (update_at p (set_attr k v) d) q k' =
     (if q = p \<and> k' = k \<and> elem_at d p then Some v else attr_at d q k')"
proof (cases "q = p")
  case True
  then show ?thesis using attrs_at_elem_at [of d p]
    by (auto simp: set_attr_def attr_at_update_at attr_at_def [of d] update_conv' split: option.splits)
next
  case False
  then show ?thesis by (simp add: set_attr_def attr_at_update_at)
qed

subsection \<open>Tree order\<close>

lemma elem_paths_from_head:
  "q \<in> set (elem_paths_from i cs) \<Longrightarrow> \<exists>j r. q = j # r \<and> i \<le> j \<and> j < i + length cs"
proof (induction cs arbitrary: i)
  case Nil
  then show ?case by simp
next
  case (Cons c cs)
  then show ?case by (fastforce dest: Cons.IH)
qed

lemma distinct_elem_paths: "distinct (elem_paths n)"
  and distinct_elem_paths_from: "distinct (elem_paths_from i cs)"
proof (induction n and i cs rule: elem_paths_elem_paths_from.induct)
  case (2 t as cs)
  then show ?case by (auto dest: elem_paths_from_head)
next
  case (4 i c cs)
  have "set (map (Cons i) (elem_paths c)) \<inter> set (elem_paths_from (Suc i) cs) = {}"
    by (auto dest: elem_paths_from_head)
  with 4 show ?case by (simp add: distinct_map)
qed simp_all

lemma distinct_descendants: "distinct (descendants d h)"
  by (auto simp: descendants_def distinct_map distinct_elem_paths_from inj_on_def split: option.splits node.splits)

lemma tag_at_elem_at: "tag_at d q = Some t \<Longrightarrow> elem_at d q"
  by (auto simp: tag_at_def elem_at_def split: option.splits node.splits)

lemma node_at_append: "node_at d (p @ q) = Option.bind (node_at d p) (\<lambda>n. node_at n q)"
  by (induction p arbitrary: d) (auto split: node.splits)

lemma elem_paths_from_mem:
  "j < length cs \<Longrightarrow> r \<in> set (elem_paths (cs ! j)) \<Longrightarrow> (i + j) # r \<in> set (elem_paths_from i cs)"
proof (induction cs arbitrary: i j)
  case Nil
  then show ?case by simp
next
  case (Cons c cs)
  then show ?case by (cases j) (auto dest: Cons.IH [of _ "Suc i"])
qed

lemma elem_at_elem_paths: "elem_at n r \<Longrightarrow> r \<in> set (elem_paths n)"
proof (induction r arbitrary: n)
  case Nil
  then show ?case by (cases n) (simp_all add: elem_at_def)
next
  case (Cons j r)
  then obtain t as cs where n: "n = Element t as cs" and j: "j < length cs" and e: "elem_at (cs ! j) r"
    by (auto simp: elem_at_def split: node.splits if_splits)
  show ?case using elem_paths_from_mem [OF j Cons.IH [OF e], of 0] n by simp
qed

subsection \<open>Updates outside a subtree\<close>

lemma node_head_update_at:
  assumes "\<And>t as cs cs'. g (Element t as cs) = g (Element t as cs')" and "\<not> prefix p q"
  shows "Option.bind (node_at (update_at p f d) q) g = Option.bind (node_at d q) g"
  using assms(2)
proof (induction p arbitrary: d q)
  case Nil
  then show ?case by simp
next
  case (Cons i p)
  show ?case
  proof (cases d)
    case (Element t as cs)
    show ?thesis
    proof (cases q)
      case Nil
      then show ?thesis using Element assms(1) by simp
    next
      case (Cons j q')
      show ?thesis
      proof (cases "j = i \<and> i < length cs")
        case True
        then show ?thesis using Cons.IH [of q' "cs ! i"] Cons.prems Element \<open>q = j # q'\<close> by simp
      next
        case False
        then show ?thesis using Element \<open>q = j # q'\<close> by (auto simp: nth_list_update_neq)
      qed
    qed
  next
    case (Text s)
    then show ?thesis by simp
  qed
qed

lemma attrs_at_bind: "attrs_at d q = Option.bind (node_at d q) (case_node (\<lambda>t as cs. Some as) (\<lambda>s. None))"
  by (simp add: attrs_at_def split: option.splits node.splits)

lemma tag_at_bind: "tag_at d q = Option.bind (node_at d q) (case_node (\<lambda>t as cs. Some (map ascii_upper t)) (\<lambda>s. None))"
  by (simp add: tag_at_def split: option.splits node.splits)

lemma attrs_at_update_outside: "\<not> prefix p q \<Longrightarrow> attrs_at (update_at p f d) q = attrs_at d q"
  unfolding attrs_at_bind by (rule node_head_update_at) simp_all

lemma tag_at_update_outside: "\<not> prefix p q \<Longrightarrow> tag_at (update_at p f d) q = tag_at d q"
  unfolding tag_at_bind by (rule node_head_update_at) simp_all

lemma node_at_update_at_self: "node_at (update_at p f d) p = map_option f (node_at d p)"
proof (induction p arbitrary: d)
  case Nil
  then show ?case by simp
next
  case (Cons i p)
  then show ?case by (cases d) simp_all
qed

lemma prev_elem_sibling_Some: "prev_elem_sibling d q = Some s \<Longrightarrow> \<exists>j. s = butlast q @ [j]"
  by (auto simp: prev_elem_sibling_def split: if_splits option.splits node.splits list.splits)

lemma elem_paths_from_ne: "q \<in> set (elem_paths_from i cs) \<Longrightarrow> q \<noteq> []"
  by (induction cs arbitrary: i) auto

lemma elem_at_parent: "elem_at d (q @ [i]) \<Longrightarrow> elem_at d q"
proof (induction q arbitrary: d)
  case Nil
  then show ?case by (cases d) (auto simp: elem_at_def split: if_splits)
next
  case (Cons j q)
  then show ?case by (cases d) (auto simp: elem_at_def split: if_splits)
qed

subsection \<open>Well-formed trees\<close>

lemma wf_nodes_iff: "wf_nodes cs \<longleftrightarrow> (\<forall>c \<in> set cs. wf_node c)"
  by (induction cs) simp_all

lemma wf_nodes_update: "wf_nodes cs \<Longrightarrow> wf_node x \<Longrightarrow> wf_nodes (cs[i := x])"
  by (induction cs arbitrary: i) (simp_all split: nat.splits)

lemma wf_update_at:
  assumes "wf_node d" and "\<And>n. wf_node n \<Longrightarrow> wf_node (f n)"
  shows "wf_node (update_at p f d)"
  using assms(1)
proof (induction p arbitrary: d)
  case Nil
  then show ?case using assms(2) by simp
next
  case (Cons i p)
  show ?case
  proof (cases d)
    case (Element t as cs)
    show ?thesis
    proof (cases "i < length cs")
      case True
      then have "wf_node (cs ! i)" using Cons.prems Element by (simp add: wf_nodes_iff)
      then show ?thesis using Cons.IH Cons.prems Element by (simp add: wf_nodes_update)
    next
      case False
      then show ?thesis using Cons.prems Element by (simp add: list_update_beyond)
    qed
  next
    case (Text s)
    then show ?thesis by simp
  qed
qed


lemma wf_modify_attrs:
  "wf_node n \<Longrightarrow> (\<And>as. distinct (map fst as) \<Longrightarrow> distinct (map fst (g as))) \<Longrightarrow> wf_node (modify_attrs g n)"
  by (cases n) simp_all

lemma wf_add_class [intro]: "wf_node n \<Longrightarrow> wf_node (add_class u n)"
  by (simp add: add_class_def add_class_attrs_def Let_def wf_modify_attrs distinct_update)

lemma wf_toggle_class [intro]: "wf_node n \<Longrightarrow> wf_node (toggle_class u n)"
  by (simp add: toggle_class_def toggle_class_attrs_def Let_def wf_modify_attrs distinct_update)

lemma wf_set_attr [intro]: "wf_node n \<Longrightarrow> wf_node (set_attr k v n)"
  by (simp add: set_attr_def wf_modify_attrs distinct_update)

lemma wf_set_children: "wf_node n \<Longrightarrow> wf_nodes cs \<Longrightarrow> wf_node (set_children cs n)"
  by (cases n) simp_all

end
