(* ===== verification/Toc.thy ===== *)
theory Toc
  imports Dom
begin

text \<open>
  The navigation tree of \<^verbatim>\<open>src/toc.js\<close>. Line 11 assigns a fixed markup string to
  \<^verbatim>\<open>this.innerHTML\<close>; \<open>toc_markup\<close> is that string, and \<open>toc_tree\<close> is the
  element the HTML parser builds from it (one \<^verbatim>\<open>ol.chapter\<close> whose items are
  \<^verbatim>\<open>li.chapter-item\<close> entries with one link each, and unclassed \<^verbatim>\<open>li\<close> entries
  that wrap a nested \<^verbatim>\<open>ol.section\<close>). \<open>serialize\<close> is the HTML fragment serializer for
  such trees (text and attribute escaping of \<^verbatim>\<open>&\<close>, \<^verbatim>\<open><\<close>, \<^verbatim>\<open>>\<close>,
  \<^verbatim>\<open>"\<close>); serializing the tree gives back the source string character for
  character.
  The fragment parser of the next theory turns the string into exactly this tree, and
  the tree is well-formed.
\<close>

subsection \<open>The markup (line 11)\<close>

definition toc_markup :: string where
  \<open>toc_markup = ''<ol class="chapter"><li class="chapter-item expanded affix "><a href="GLOSSARY.html">Glossary</a></li><li class="chapter-item expanded "><a href="index.html">Approved</a></li><li><ol class="section"><li class="chapter-item expanded "><a href="index.html">HIPs</a></li><li><ol class="section"><li class="chapter-item expanded "><a href="Approved/main/HIP/hip-1/index.html">HIP-1: Native On-chain Cron Scheduling (Chronos Module &amp; Precompile)</a></li><li class="chapter-item expanded "><a href="Approved/main/HIP/hip-2/index.html">HIP-2: Delegation Boost for Enhanced Staking</a></li><li class="chapter-item expanded "><a href="Approved/main/HIP/hip-3/index.html">HIP-3: Smart Contract Creator Incentives</a></li><li class="chapter-item expanded "><a href="Approved/main/HIP/hip-4/index.html">HIP-4: External Data Call Support via Hyperions</a></li></ol></li><li class="chapter-item expanded "><a href="index.html">HDs</a></li><li><ol class="section"><li class="chapter-item expanded "><a href="Approved/main/HD/hd-1/index.html">HD-1: Chronos Module &amp; Precompile</a></li><li class="chapter-item expanded "><a href="Approved/main/HD/hd-2/index.html">HD-2: Delegation Boost for Enhanced Staking</a></li><li class="chapter-item expanded "><a href="Approved/main/HD/hd-3/index.html">HD-3</a></li><li class="chapter-item expanded "><a href="Approved/main/HD/hd-4/index.html">HD-4: External Data Call Support via Hyperions</a></li></ol></li></ol></li><li class="chapter-item expanded "><a href="index.html">Review</a></li></ol>''\<close>

subsection \<open>The parsed tree\<close>

definition toc_link :: "DOMString \<Rightarrow> DOMString \<Rightarrow> DOMString \<Rightarrow> node" where
  "toc_link cls href label =
     Element ''li'' [(''class'', cls)] [Element ''a'' [(''href'', href)] [Text label]]"

definition toc_section :: "node list \<Rightarrow> node" where
  "toc_section items = Element ''li'' [] [Element ''ol'' [(''class'', ''section'')] items]"

definition toc_tree :: node where
  "toc_tree =
     Element ''ol'' [(''class'', ''chapter'')]
       [toc_link ''chapter-item expanded affix '' ''GLOSSARY.html'' ''Glossary'',
        toc_link ''chapter-item expanded '' ''index.html'' ''Approved'',
        toc_section
          [toc_link ''chapter-item expanded '' ''index.html'' ''HIPs'',
           toc_section
             [toc_link ''chapter-item expanded '' ''Approved/main/HIP/hip-1/index.html''
                ''HIP-1: Native On-chain Cron Scheduling (Chronos Module & Precompile)'',
              toc_link ''chapter-item expanded '' ''Approved/main/HIP/hip-2/index.html''
                ''HIP-2: Delegation Boost for Enhanced Staking'',
              toc_link ''chapter-item expanded '' ''Approved/main/HIP/hip-3/index.html''
                ''HIP-3: Smart Contract Creator Incentives'',
              toc_link ''chapter-item expanded '' ''Approved/main/HIP/hip-4/index.html''
                ''HIP-4: External Data Call Support via Hyperions''],
           toc_link ''chapter-item expanded '' ''index.html'' ''HDs'',
           toc_section
             [toc_link ''chapter-item expanded '' ''Approved/main/HD/hd-1/index.html''
                ''HD-1: Chronos Module & Precompile'',
              toc_link ''chapter-item expanded '' ''Approved/main/HD/hd-2/index.html''
                ''HD-2: Delegation Boost for Enhanced Staking'',
              toc_link ''chapter-item expanded '' ''Approved/main/HD/hd-3/index.html'' ''HD-3'',
              toc_link ''chapter-item expanded '' ''Approved/main/HD/hd-4/index.html''
                ''HD-4: External Data Call Support via Hyperions'']],
        toc_link ''chapter-item expanded '' ''index.html'' ''Review'']"

subsection \<open>HTML serialization\<close>

fun escape_text :: "string \<Rightarrow> string" where
  "escape_text [] = []"
| "escape_text (c # cs) =
     (if c = CHR ''&'' then ''&amp;'' else if c = CHR ''<'' then ''&lt;''
      else if c = CHR ''>'' then ''&gt;'' else [c]) @ escape_text cs"

fun escape_attr :: "string \<Rightarrow> string" where
  "escape_attr [] = []"
| "escape_attr (c # cs) =
     (if c = CHR ''&'' then ''&amp;'' else if c = CHR 0x22 then ''&quot;'' else [c]) @ escape_attr cs"

definition serialize_attr :: "DOMString \<times> DOMString \<Rightarrow> string" where
  "serialize_attr kv = CHR '' '' # fst kv @ CHR ''='' # CHR 0x22 # escape_attr (snd kv) @ [CHR 0x22]"

fun serialize :: "node \<Rightarrow> string" where
  "serialize (Text s) = escape_text s"
| "serialize (Element t as cs) =
     CHR ''<'' # t @ concat (map serialize_attr as) @ CHR ''>'' # concat (map serialize cs) @
     ''</'' @ t @ ''>''"

subsection \<open>Facts of the tree\<close>

lemma toc_tree_markup: "serialize toc_tree = toc_markup"
  by code_simp

lemma wf_toc_tree: "wf_node toc_tree"
  by code_simp

end
