(* ===== verification/Html.thy ===== *)
theory Html
  imports Toc
begin

text \<open>
  The HTML fragment parser behind the \<^verbatim>\<open>innerHTML\<close> setter of line 11, for the markup
  the script assigns: the tokenizer of the HTML standard as a state machine over the
  input characters (data, character reference, tag open, tag name, attribute name and
  double-quoted value, end tag states) and tree construction with a stack of open
  elements. Tag and attribute names are ASCII-lowercased, a repeated attribute is
  dropped, and the named references \<^verbatim>\<open>&amp;\<close>, \<^verbatim>\<open>&lt;\<close>, \<^verbatim>\<open>&gt;\<close> and
  \<^verbatim>\<open>&quot;\<close> are decoded. Input outside this subset (other references, unquoted
  values, comments, an end tag that does not close the current element) gives \<open>None\<close>:
  the standard's error recovery is not modelled. Library behaviour, from the HTML
  standard.
\<close>

datatype token = StartTag DOMString "(DOMString \<times> DOMString) list" | EndTag DOMString | Chars DOMString

datatype tstate =
    Data string
  | CharRef string string
  | TagOpen
  | TagName DOMString
  | BeforeAttr DOMString "(DOMString \<times> DOMString) list"
  | AttrName DOMString "(DOMString \<times> DOMString) list" DOMString
  | BeforeValue DOMString "(DOMString \<times> DOMString) list" DOMString
  | Value DOMString "(DOMString \<times> DOMString) list" DOMString string
  | ValueRef DOMString "(DOMString \<times> DOMString) list" DOMString string string
  | AfterValue DOMString "(DOMString \<times> DOMString) list"
  | EndTagOpen
  | EndTagName DOMString

definition ascii_lower :: "char \<Rightarrow> char" where
  "ascii_lower c =
     (case map_of (zip ''ABCDEFGHIJKLMNOPQRSTUVWXYZ'' ''abcdefghijklmnopqrstuvwxyz'') c of
        Some l \<Rightarrow> l
      | None \<Rightarrow> c)"

definition is_alpha :: "char \<Rightarrow> bool" where
  "is_alpha c \<longleftrightarrow> c \<in> set ''abcdefghijklmnopqrstuvwxyzABCDEFGHIJKLMNOPQRSTUVWXYZ''"

definition char_ref :: "string \<Rightarrow> char option" where
  "char_ref r =
     (if r = ''amp'' then Some CHR ''&'' else if r = ''lt'' then Some CHR ''<''
      else if r = ''gt'' then Some CHR ''>'' else if r = ''quot'' then Some (CHR 0x22) else None)"

definition emit_text :: "string \<Rightarrow> token list" where
  "emit_text acc = (if acc = [] then [] else [Chars acc])"

definition add_attr :: "(DOMString \<times> DOMString) list \<Rightarrow> DOMString \<times> DOMString \<Rightarrow> (DOMString \<times> DOMString) list" where
  "add_attr as kv = (if fst kv \<in> set (map fst as) then as else as @ [kv])"

fun tk_step :: "tstate \<Rightarrow> char \<Rightarrow> (token list \<times> tstate) option" where
  "tk_step (Data acc) c =
     (if c = CHR ''<'' then Some (emit_text acc, TagOpen)
      else if c = CHR ''&'' then Some ([], CharRef acc [])
      else Some ([], Data (acc @ [c])))"
| "tk_step (CharRef acc r) c =
     (if c = CHR '';'' then map_option (\<lambda>x. ([], Data (acc @ [x]))) (char_ref r)
      else Some ([], CharRef acc (r @ [c])))"
| "tk_step TagOpen c =
     (if c = CHR ''/'' then Some ([], EndTagOpen)
      else if is_alpha c then Some ([], TagName [ascii_lower c]) else None)"
| "tk_step (TagName n) c =
     (if c = CHR '' '' then Some ([], BeforeAttr n [])
      else if c = CHR ''>'' then Some ([StartTag n []], Data [])
      else Some ([], TagName (n @ [ascii_lower c])))"
| "tk_step (BeforeAttr n as) c =
     (if c = CHR '' '' then Some ([], BeforeAttr n as)
      else if c = CHR ''>'' then Some ([StartTag n as], Data [])
      else Some ([], AttrName n as [ascii_lower c]))"
| "tk_step (AttrName n as k) c =
     (if c = CHR ''='' then Some ([], BeforeValue n as k)
      else if c = CHR '' '' then Some ([], BeforeAttr n (add_attr as (k, [])))
      else if c = CHR ''>'' then Some ([StartTag n (add_attr as (k, []))], Data [])
      else Some ([], AttrName n as (k @ [ascii_lower c])))"
| "tk_step (BeforeValue n as k) c =
     (if c = CHR 0x22 then Some ([], Value n as k []) else None)"
| "tk_step (Value n as k v) c =
     (if c = CHR 0x22 then Some ([], AfterValue n (add_attr as (k, v)))
      else if c = CHR ''&'' then Some ([], ValueRef n as k v [])
      else Some ([], Value n as k (v @ [c])))"
| "tk_step (ValueRef n as k v r) c =
     (if c = CHR '';'' then map_option (\<lambda>x. ([], Value n as k (v @ [x]))) (char_ref r)
      else Some ([], ValueRef n as k v (r @ [c])))"
| "tk_step (AfterValue n as) c =
     (if c = CHR '' '' then Some ([], BeforeAttr n as)
      else if c = CHR ''>'' then Some ([StartTag n as], Data []) else None)"
| "tk_step EndTagOpen c =
     (if is_alpha c then Some ([], EndTagName [ascii_lower c]) else None)"
| "tk_step (EndTagName n) c =
     (if c = CHR ''>'' then Some ([EndTag n], Data []) else Some ([], EndTagName (n @ [ascii_lower c])))"

fun tk_eof :: "tstate \<Rightarrow> token list option" where
  "tk_eof (Data acc) = Some (emit_text acc)"
| "tk_eof _ = None"

fun tokenize :: "tstate \<Rightarrow> string \<Rightarrow> token list option" where
  "tokenize st [] = tk_eof st"
| "tokenize st (c # cs) =
     (case tk_step st c of
        None \<Rightarrow> None
      | Some (out, st') \<Rightarrow> map_option (\<lambda>ts. out @ ts) (tokenize st' cs))"

type_synonym frame = "DOMString \<times> (DOMString \<times> DOMString) list \<times> node list"

fun add_child :: "node \<Rightarrow> frame list \<Rightarrow> node list \<Rightarrow> frame list \<times> node list" where
  "add_child c [] roots = ([], roots @ [c])"
| "add_child c ((n, as, cs) # st) roots = ((n, as, cs @ [c]) # st, roots)"

fun close_all :: "frame list \<Rightarrow> node list \<Rightarrow> node list" where
  "close_all [] roots = roots"
| "close_all [(n, as, cs)] roots = roots @ [Element n as cs]"
| "close_all ((n, as, cs) # (n2, as2, cs2) # st) roots = close_all ((n2, as2, cs2 @ [Element n as cs]) # st) roots"

fun build :: "frame list \<Rightarrow> node list \<Rightarrow> token list \<Rightarrow> node list option" where
  "build st roots [] = Some (close_all st roots)"
| "build st roots (StartTag n as # ts) = build ((n, as, []) # st) roots ts"
| "build st roots (Chars s # ts) = (case add_child (Text s) st roots of (st', roots') \<Rightarrow> build st' roots' ts)"
| "build [] roots (EndTag n # ts) = build [] roots ts"
| "build ((n', as, cs) # st) roots (EndTag n # ts) =
     (if n = n' then (case add_child (Element n' as cs) st roots of (st', roots') \<Rightarrow> build st' roots' ts)
      else None)"

definition parse_fragment :: "string \<Rightarrow> node list option" where
  "parse_fragment s = (case tokenize (Data []) s of None \<Rightarrow> None | Some ts \<Rightarrow> build [] [] ts)"

text \<open>The trees the serializer and the parser agree on: names of lowercase letters,
  digits and hyphens starting with a letter, distinct attribute names, no empty text
  node and no two text nodes side by side (the parser would merge them).\<close>

definition name_char :: "char \<Rightarrow> bool" where
  "name_char c \<longleftrightarrow> c \<in> set ''abcdefghijklmnopqrstuvwxyz0123456789-''"

definition good_name :: "string \<Rightarrow> bool" where
  "good_name n \<longleftrightarrow> n \<noteq> [] \<and> is_alpha (hd n) \<and> list_all name_char n"

fun simple_node :: "node \<Rightarrow> bool"
  and simple_nodes :: "node list \<Rightarrow> bool" where
  "simple_node (Text s) \<longleftrightarrow> s \<noteq> []"
| "simple_node (Element t as cs) \<longleftrightarrow>
     good_name t \<and> list_all (\<lambda>kv. good_name (fst kv)) as \<and> distinct (map fst as) \<and> simple_nodes cs"
| "simple_nodes [] \<longleftrightarrow> True"
| "simple_nodes (c # cs) \<longleftrightarrow>
     simple_node c \<and> simple_nodes cs \<and>
     (case cs of [] \<Rightarrow> True | c' # _ \<Rightarrow> is_element c \<or> is_element c')"

fun toks :: "node \<Rightarrow> token list"
  and toks_list :: "node list \<Rightarrow> token list" where
  "toks (Text s) = [Chars s]"
| "toks (Element t as cs) = StartTag t as # toks_list cs @ [EndTag t]"
| "toks_list [] = []"
| "toks_list (c # cs) = toks c @ toks_list cs"

fun add_children :: "node list \<Rightarrow> frame list \<Rightarrow> node list \<Rightarrow> frame list \<times> node list" where
  "add_children [] st roots = (st, roots)"
| "add_children (c # cs) st roots = (case add_child c st roots of (st', roots') \<Rightarrow> add_children cs st' roots')"

subsection \<open>Lemmas\<close>

lemma map_option_append_Nil [simp]: "map_option (\<lambda>ts. [] @ ts) x = x"
  by (cases x) simp_all

lemma map_option_append_single [simp]: "map_option (\<lambda>ts. [t] @ ts) x = map_option (\<lambda>ts. t # ts) x"
  by (cases x) simp_all

lemma tokenize_escape_text:
  "tokenize (Data acc) (escape_text s @ rest) = tokenize (Data (acc @ s)) rest"
  by (induction s arbitrary: acc) (simp_all add: char_ref_def)

lemma tokenize_escape_attr:
  "tokenize (Value n as k v) (escape_attr s @ rest) = tokenize (Value n as k (v @ s)) rest"
  by (induction s arbitrary: v) (simp_all add: char_ref_def)

lemma name_char_facts:
  "name_char c \<Longrightarrow>
     ascii_lower c = c \<and> c \<noteq> CHR '' '' \<and> c \<noteq> CHR ''>'' \<and> c \<noteq> CHR ''='' \<and> c \<noteq> CHR ''/''"
  unfolding name_char_def by (simp add: ascii_lower_def) (elim disjE; simp)

lemma tokenize_tag_name:
  "list_all name_char t \<Longrightarrow> tokenize (TagName n) (t @ rest) = tokenize (TagName (n @ t)) rest"
  by (induction t arbitrary: n) (simp_all add: name_char_facts)

lemma tokenize_attr_name:
  "list_all name_char k \<Longrightarrow> tokenize (AttrName n as k0) (k @ rest) = tokenize (AttrName n as (k0 @ k)) rest"
  by (induction k arbitrary: k0) (simp_all add: name_char_facts)

lemma tokenize_end_name:
  "list_all name_char t \<Longrightarrow> tokenize (EndTagName n) (t @ rest) = tokenize (EndTagName (n @ t)) rest"
  by (induction t arbitrary: n) (simp_all add: name_char_facts)

lemma good_name_Cons:
  "good_name n \<Longrightarrow> \<exists>c n'. n = c # n' \<and> is_alpha c \<and> ascii_lower c = c \<and>
     c \<noteq> CHR '' '' \<and> c \<noteq> CHR ''>'' \<and> c \<noteq> CHR ''/'' \<and> list_all name_char n'"
  by (cases n) (auto simp: good_name_def name_char_facts)

lemma tokenize_attr:
  assumes "good_name k"
  shows "tokenize (BeforeAttr n as0) (k @ CHR ''='' # CHR 0x22 # escape_attr v @ CHR 0x22 # rest) =
           tokenize (AfterValue n (add_attr as0 (k, v))) rest"
proof -
  obtain c k' where k: "k = c # k'" "is_alpha c" "ascii_lower c = c" "c \<noteq> CHR '' ''" "c \<noteq> CHR ''>''"
    "list_all name_char k'"
    using good_name_Cons [OF assms] by blast
  have "tokenize (BeforeAttr n as0) (k @ CHR ''='' # CHR 0x22 # escape_attr v @ CHR 0x22 # rest) =
        tokenize (AttrName n as0 k) (CHR ''='' # CHR 0x22 # escape_attr v @ CHR 0x22 # rest)"
    using k tokenize_attr_name [OF k(6), of n as0 "[c]"] by simp
  also have "\<dots> = tokenize (Value n as0 k []) (escape_attr v @ CHR 0x22 # rest)" by simp
  also have "\<dots> = tokenize (AfterValue n (add_attr as0 (k, v))) rest" by (simp add: tokenize_escape_attr)
  finally show ?thesis .
qed

lemma tokenize_attrs:
  assumes "list_all (\<lambda>kv. good_name (fst kv)) as" and "distinct (map fst (as0 @ as))"
  shows "tokenize (AfterValue n as0) (concat (map serialize_attr as) @ CHR ''>'' # rest) =
           map_option (\<lambda>ts. StartTag n (as0 @ as) # ts) (tokenize (Data []) rest)"
  using assms
proof (induction as arbitrary: as0)
  case Nil
  then show ?case by simp
next
  case (Cons kv as)
  obtain k v where kv: "kv = (k, v)" by (cases kv)
  have a: "add_attr as0 (k, v) = as0 @ [(k, v)]" using Cons.prems(2) kv by (auto simp: add_attr_def)
  have "tokenize (AfterValue n as0) (concat (map serialize_attr (kv # as)) @ CHR ''>'' # rest) =
        tokenize (AfterValue n (as0 @ [(k, v)])) (concat (map serialize_attr as) @ CHR ''>'' # rest)"
    using tokenize_attr [of k n as0 v] Cons.prems(1) kv a by (simp add: serialize_attr_def)
  also have "\<dots> = map_option (\<lambda>ts. StartTag n (as0 @ kv # as) # ts) (tokenize (Data []) rest)"
    using Cons.IH [of "as0 @ [(k, v)]"] Cons.prems kv by simp
  finally show ?case .
qed

lemma tokenize_tag_attrs:
  assumes "list_all (\<lambda>kv. good_name (fst kv)) as" and "distinct (map fst as)"
  shows "tokenize (TagName n) (concat (map serialize_attr as) @ CHR ''>'' # rest) =
           map_option (\<lambda>ts. StartTag n as # ts) (tokenize (Data []) rest)"
proof (cases as)
  case Nil
  then show ?thesis by simp
next
  case (Cons kv as')
  obtain k v where kv: "kv = (k, v)" by (cases kv)
  have "tokenize (TagName n) (concat (map serialize_attr as) @ CHR ''>'' # rest) =
        tokenize (AfterValue n [(k, v)]) (concat (map serialize_attr as') @ CHR ''>'' # rest)"
    using tokenize_attr [of k n "[]" v] assms(1) Cons kv by (simp add: serialize_attr_def add_attr_def)
  also have "\<dots> = map_option (\<lambda>ts. StartTag n as # ts) (tokenize (Data []) rest)"
    using tokenize_attrs [of as' "[(k, v)]" n rest] assms Cons kv by simp
  finally show ?thesis .
qed

lemma serialize_element_hd: "is_element x \<Longrightarrow> \<exists>r. serialize x = CHR ''<'' # r"
  by (cases x) simp_all

lemma tokenize_element:
  assumes "good_name t" and "list_all (\<lambda>kv. good_name (fst kv)) as" and "distinct (map fst as)"
    and "\<And>rest. rest = [] \<or> hd rest = CHR ''<'' \<Longrightarrow>
           tokenize (Data []) (concat (map serialize cs) @ rest) =
             map_option (\<lambda>ts. toks_list cs @ ts) (tokenize (Data []) rest)"
  shows "tokenize (Data []) (serialize (Element t as cs) @ rest) =
           map_option (\<lambda>ts. toks (Element t as cs) @ ts) (tokenize (Data []) rest)"
proof -
  obtain c t' where c: "t = c # t'" "is_alpha c" "ascii_lower c = c" "c \<noteq> CHR '' ''" "c \<noteq> CHR ''>''"
    "c \<noteq> CHR ''/''" "list_all name_char t'"
    using good_name_Cons [OF assms(1)] by blast
  let ?close = "CHR ''<'' # CHR ''/'' # t @ CHR ''>'' # rest"
  have "tokenize (Data []) (serialize (Element t as cs) @ rest) =
        tokenize (TagName t) (concat (map serialize_attr as) @ CHR ''>'' # concat (map serialize cs) @ ''</'' @ t @ CHR ''>'' # rest)"
    using c tokenize_tag_name [OF c(7), of "[c]"] by (simp add: emit_text_def)
  also have "\<dots> = map_option (\<lambda>ts. StartTag t as # ts) (tokenize (Data []) (concat (map serialize cs) @ ?close))"
    using assms(2,3) by (simp add: tokenize_tag_attrs)
  also have "\<dots> = map_option (\<lambda>ts. StartTag t as # toks_list cs @ ts) (tokenize (Data []) ?close)"
    using assms(4) [of ?close] by (simp add: option.map_comp comp_def)
  also have "tokenize (Data []) ?close = map_option (\<lambda>ts. EndTag t # ts) (tokenize (Data []) rest)"
    using c tokenize_end_name [OF c(7), of "[c]"] by (simp add: emit_text_def)
  finally show ?thesis by (simp add: option.map_comp comp_def)
qed

lemma tokenize_serialize:
  "simple_node x \<Longrightarrow> is_element x \<or> rest = [] \<or> hd rest = CHR ''<'' \<Longrightarrow>
     tokenize (Data []) (serialize x @ rest) = map_option (\<lambda>ts. toks x @ ts) (tokenize (Data []) rest)"
  "simple_nodes cs \<Longrightarrow> rest = [] \<or> hd rest = CHR ''<'' \<Longrightarrow>
     tokenize (Data []) (concat (map serialize cs) @ rest) =
       map_option (\<lambda>ts. toks_list cs @ ts) (tokenize (Data []) rest)"
proof (induction x and cs arbitrary: rest and rest rule: simple_node_simple_nodes.induct)
  case (1 s)
  have t: "tokenize (Data []) (serialize (Text s) @ rest) = tokenize (Data s) rest"
    using tokenize_escape_text [of "[]" s rest] by simp
  from "1.prems" consider "rest = []" | r where "rest = CHR ''<'' # r" by (cases rest) auto
  then show ?case
  proof cases
    case 1
    then show ?thesis using t "1.prems"(1) by (simp add: emit_text_def)
  next
    case (2 r)
    then show ?thesis using t "1.prems"(1) by (simp add: emit_text_def)
  qed
next
  case (2 t as cs)
  then show ?case by (intro tokenize_element) simp_all
next
  case 3
  then show ?case by (simp add: option.map_ident)
next
  case (4 c cs)
  let ?rest = "concat (map serialize cs) @ rest"
  have "is_element c \<or> ?rest = [] \<or> hd ?rest = CHR ''<''"
  proof (cases cs)
    case Nil
    then show ?thesis using "4.prems"(2) by simp
  next
    case (Cons c' cs')
    then have "is_element c \<or> is_element c'" using "4.prems"(1) by simp
    then show ?thesis using Cons serialize_element_hd [of c'] by auto
  qed
  then have "tokenize (Data []) (serialize c @ ?rest) = map_option (\<lambda>ts. toks c @ ts) (tokenize (Data []) ?rest)"
    using "4.IH"(1) "4.prems"(1) by simp
  then show ?case using "4.IH"(2) [of rest] "4.prems" by (simp add: option.map_comp comp_def)
qed

lemma add_children_frame: "add_children cs ((n, as, acc) # st) roots = ((n, as, acc @ cs) # st, roots)"
  by (induction cs arbitrary: acc) simp_all

lemma add_children_roots: "add_children cs [] roots = ([], roots @ cs)"
  by (induction cs arbitrary: roots) simp_all

lemma build_toks:
  "build st roots (toks x @ ts) = (case add_child x st roots of (st', roots') \<Rightarrow> build st' roots' ts)"
  "build st roots (toks_list cs @ ts) = (case add_children cs st roots of (st', roots') \<Rightarrow> build st' roots' ts)"
proof (induction x and cs arbitrary: st roots ts and st roots ts rule: toks_toks_list.induct)
  case (1 s)
  then show ?case by simp
next
  case (2 t as cs)
  then show ?case by (simp add: add_children_frame)
next
  case 3
  then show ?case by simp
next
  case (4 c cs)
  then show ?case by (simp split: prod.splits)
qed

lemma parse_toc_markup: "parse_fragment toc_markup = Some [toc_tree]"
  by code_simp

lemma parse_serialize: "simple_nodes cs \<Longrightarrow> parse_fragment (concat (map serialize cs)) = Some cs"
  using tokenize_serialize(2) [of cs "[]"] build_toks(2) [of "[]" "[]" cs "[]"]
  by (simp add: parse_fragment_def emit_text_def add_children_roots)

end
