(* ===== verification/Url.thy ===== *)
theory Url
  imports Prelude
begin

text \<open>
  The URL handling of \<^verbatim>\<open>connectedCallback\<close> in \<^verbatim>\<open>src/toc.js\<close>:
  \<^item> \<open>current_page\<close> (lines 13--16): the page URL without its fragment, with a
    trailing \<^verbatim>\<open>/\<close> completed to \<^verbatim>\<open>/index.html\<close>;
  \<^item> \<open>abs_href\<close> (the regular expression \<^verbatim>\<open>/^(?:[a-z+]+:)?\/\//\<close> of line 22) and
    \<open>rewrites_href\<close> (the whole guard of line 22): which \<^verbatim>\<open>href\<close> attributes are
    prefixed with \<^verbatim>\<open>path_to_root\<close>;
  \<^item> \<open>href_prop\<close>: the value the \<^verbatim>\<open>link.href\<close> getter returns, given the browser's
    URL parser as a function \<open>resolve\<close> (the parsed URL, or \<open>None\<close> when parsing fails).
  \<open>resolve_url\<close> is a simplified URL resolver against a base URL (scheme, authority,
  path with dot segments removed); it is only used to evaluate concrete witnesses, and
  every theorem about the sidebar holds for an arbitrary \<open>resolve\<close>.
\<close>

subsection \<open>The current page (lines 13--16)\<close>

definition current_page :: "string \<Rightarrow> string" where
  "current_page href =
     (let page = js_split_first href CHR ''#'' in
      if js_ends_with page ''/'' then page @ ''index.html'' else page)"

subsection \<open>Which links are rewritten (lines 21--23)\<close>

definition is_scheme_char :: "char \<Rightarrow> bool" where
  "is_scheme_char c \<longleftrightarrow> c \<in> set ''abcdefghijklmnopqrstuvwxyz+''"

text \<open>\<^verbatim>\<open>/^(?:[a-z+]+:)?\/\//.test(h)\<close>. The class \<^verbatim>\<open>[a-z+]\<close> excludes \<^verbatim>\<open>:\<close>,
  so a match of the optional group is the maximal run of scheme characters.\<close>

definition abs_href :: "string \<Rightarrow> bool" where
  "abs_href h \<longleftrightarrow>
     prefix ''//'' h \<or>
     (takeWhile is_scheme_char h \<noteq> [] \<and> prefix ''://'' (dropWhile is_scheme_char h))"

text \<open>The guard \<^verbatim>\<open>href && !href.startsWith("#") && !abs.test(href)\<close>; an absent
  attribute is \<^verbatim>\<open>null\<close>, and \<^verbatim>\<open>null\<close> and \<^verbatim>\<open>""\<close> are falsy.\<close>

definition rewrites_href :: "DOMString option \<Rightarrow> bool" where
  "rewrites_href href =
     (case href of
        None \<Rightarrow> False
      | Some h \<Rightarrow> h \<noteq> [] \<and> \<not> js_starts_with h ''#'' \<and> \<not> abs_href h)"

text \<open>The \<^verbatim>\<open>href\<close> getter of an anchor: the empty string without an attribute, the
  parsed URL when the attribute parses, the attribute itself otherwise.\<close>

definition href_prop :: "(string \<Rightarrow> string option) \<Rightarrow> DOMString option \<Rightarrow> string" where
  "href_prop resolve attr =
     (case attr of
        None \<Rightarrow> []
      | Some v \<Rightarrow> (case resolve v of Some u \<Rightarrow> u | None \<Rightarrow> v))"

subsection \<open>A URL resolver for concrete documents\<close>

fun split_on :: "char \<Rightarrow> string \<Rightarrow> string list" where
  "split_on c [] = [[]]"
| "split_on c (x # xs) =
     (if x = c then [] # split_on c xs
      else (case split_on c xs of [] \<Rightarrow> [[x]] | w # ws \<Rightarrow> (x # w) # ws))"

fun join_on :: "char \<Rightarrow> string list \<Rightarrow> string" where
  "join_on c [] = []"
| "join_on c [w] = w"
| "join_on c (w # ws) = w @ c # join_on c ws"

fun drop_dots :: "string list \<Rightarrow> string list \<Rightarrow> string list" where
  "drop_dots acc [] = rev acc"
| "drop_dots acc (s # ss) =
     (if s = ''.'' then drop_dots acc ss
      else if s = ''..'' then drop_dots (drop 1 acc) ss
      else drop_dots (s # acc) ss)"

text \<open>Dot-segment removal on an absolute path (one that starts with \<^verbatim>\<open>/\<close>).\<close>

definition remove_dots :: "string \<Rightarrow> string" where
  "remove_dots p = CHR ''/'' # join_on CHR ''/'' (drop_dots [] (split_on CHR ''/'' (drop 1 p)))"

text \<open>A base URL \<^verbatim>\<open>scheme://host/path\<close> split into \<^verbatim>\<open>scheme://host\<close> and its path.\<close>

definition url_origin_path :: "string \<Rightarrow> string \<times> string" where
  "url_origin_path u =
     (let sch = takeWhile (\<lambda>c. c \<noteq> CHR ''/'') u;
          rest = drop 2 (dropWhile (\<lambda>c. c \<noteq> CHR ''/'') u);
          host = takeWhile (\<lambda>c. c \<noteq> CHR ''/'') rest;
          path = dropWhile (\<lambda>c. c \<noteq> CHR ''/'') rest
      in (sch @ ''//'' @ host, if path = [] then ''/'' else path))"

definition dir_of :: "string \<Rightarrow> string" where
  "dir_of p = rev (dropWhile (\<lambda>c. c \<noteq> CHR ''/'') (rev p))"

definition has_scheme :: "string \<Rightarrow> bool" where
  "has_scheme r \<longleftrightarrow> takeWhile is_scheme_char r \<noteq> [] \<and> prefix '':'' (dropWhile is_scheme_char r)"

definition resolve_url :: "string \<Rightarrow> string \<Rightarrow> string option" where
  "resolve_url base r =
     (let b = js_split_first base CHR ''#''; (origin, path) = url_origin_path b in
      if has_scheme r then Some r
      else if prefix ''//'' r then Some (takeWhile (\<lambda>c. c \<noteq> CHR ''/'') b @ r)
      else if prefix ''#'' r then Some (b @ r)
      else if prefix ''/'' r then Some (origin @ remove_dots r)
      else Some (origin @ remove_dots (dir_of path @ r)))"

subsection \<open>Properties of the current page\<close>

lemma current_page_cases:
  "current_page u = js_split_first u CHR ''#'' \<or>
   current_page u = js_split_first u CHR ''#'' @ ''index.html''"
  by (simp add: current_page_def Let_def)

lemma not_ends_with_index: "\<not> js_ends_with (p @ ''index.html'') ''/''"
  by (simp add: js_ends_with_def suffix_def)

lemma current_page_no_fragment: "CHR ''#'' \<notin> set (current_page u)"
  using current_page_cases [of u] js_split_first_notin [where s = u and c = "CHR ''#''"] by auto

text \<open>C8. A page URL ending in '/' is normalised to the same current page as the URL of that directory's index.html.\<close>

theorem current_page_dir_index:
  "CHR ''#'' \<notin> set u \<Longrightarrow> current_page (u @ ''/'') = current_page (u @ ''/index.html'')"
proof -
  assume u: "CHR ''#'' \<notin> set u"
  have "current_page (u @ ''/'') = u @ ''/index.html''"
    using u by (simp add: current_page_def js_split_first_no_sep js_ends_with_append)
  moreover have "current_page (u @ ''/index.html'') = u @ ''/index.html''"
    using u not_ends_with_index [of "u @ ''/''"]
    by (simp add: current_page_def js_split_first_no_sep)
  ultimately show ?thesis by simp
qed

lemma current_page_fragment:
  "CHR ''#'' \<notin> set u \<Longrightarrow> current_page (u @ CHR ''#'' # f) = current_page u"
  by (simp add: current_page_def js_split_first_sep js_split_first_no_sep)

lemma current_page_idem: "current_page (current_page u) = current_page u"
proof -
  let ?p = "js_split_first u CHR ''#''"
  have nf: "CHR ''#'' \<notin> set ?p" by (rule js_split_first_notin)
  show ?thesis
  proof (cases "js_ends_with ?p ''/''")
    case True
    then have "current_page u = ?p @ ''index.html''" by (simp add: current_page_def)
    then show ?thesis
      using nf not_ends_with_index [of ?p] by (simp add: current_page_def js_split_first_no_sep)
  next
    case False
    then have "current_page u = ?p" by (simp add: current_page_def)
    then show ?thesis
      using nf False by (simp add: current_page_def js_split_first_no_sep)
  qed
qed

subsection \<open>The regular expression\<close>

lemma scheme_colon: "\<not> is_scheme_char CHR '':''"
  by (simp add: is_scheme_char_def)

lemma abs_href_regex:
  "abs_href h \<longleftrightarrow>
     (\<exists>w r. h = w @ r \<and> prefix ''//'' r \<and>
        (w = [] \<or> (\<exists>s. w = s @ '':'' \<and> s \<noteq> [] \<and> (\<forall>c \<in> set s. is_scheme_char c))))"
proof
  assume "abs_href h"
  then consider "prefix ''//'' h"
    | "takeWhile is_scheme_char h \<noteq> []" "prefix ''://'' (dropWhile is_scheme_char h)"
    by (auto simp: abs_href_def)
  then show "\<exists>w r. h = w @ r \<and> prefix ''//'' r \<and>
        (w = [] \<or> (\<exists>s. w = s @ '':'' \<and> s \<noteq> [] \<and> (\<forall>c \<in> set s. is_scheme_char c)))"
  proof cases
    case 1
    then show ?thesis by (intro exI [of _ "[]"] exI [of _ h]) simp
  next
    case 2
    let ?s = "takeWhile is_scheme_char h"
    from 2(2) obtain r where r: "dropWhile is_scheme_char h = CHR '':'' # r" and "prefix ''//'' r"
      by (auto simp: prefix_def)
    moreover have "h = (?s @ '':'') @ r" using r by (metis append.assoc append_Cons append_Nil takeWhile_dropWhile_id)
    moreover have "\<forall>c \<in> set ?s. is_scheme_char c" by (auto dest: set_takeWhileD)
    ultimately show ?thesis using 2(1) by blast
  qed
next
  assume "\<exists>w r. h = w @ r \<and> prefix ''//'' r \<and>
        (w = [] \<or> (\<exists>s. w = s @ '':'' \<and> s \<noteq> [] \<and> (\<forall>c \<in> set s. is_scheme_char c)))"
  then obtain w r where h: "h = w @ r" and r: "prefix ''//'' r"
    and w: "w = [] \<or> (\<exists>s. w = s @ '':'' \<and> s \<noteq> [] \<and> (\<forall>c \<in> set s. is_scheme_char c))"
    by blast
  from w show "abs_href h"
  proof
    assume "w = []"
    then show ?thesis using h r by (simp add: abs_href_def)
  next
    assume "\<exists>s. w = s @ '':'' \<and> s \<noteq> [] \<and> (\<forall>c \<in> set s. is_scheme_char c)"
    then obtain s where s: "w = s @ '':''" "s \<noteq> []" "\<forall>c \<in> set s. is_scheme_char c" by blast
    have "takeWhile is_scheme_char h = s"
      using s h scheme_colon by (simp add: takeWhile_append2)
    moreover have "dropWhile is_scheme_char h = CHR '':'' # r"
      using s h scheme_colon by (simp add: dropWhile_append2)
    ultimately show ?thesis using s(2) r by (simp add: abs_href_def)
  qed
qed

lemma rewrites_relative:
  assumes "h \<noteq> []" and "CHR '':'' \<notin> set h" and "\<not> prefix ''#'' h" and "\<not> prefix ''//'' h"
  shows "rewrites_href (Some h)"
proof -
  have "\<not> prefix ''://'' (dropWhile is_scheme_char h)"
  proof
    assume "prefix ''://'' (dropWhile is_scheme_char h)"
    then have "CHR '':'' \<in> set (dropWhile is_scheme_char h)" by (auto simp: prefix_def)
    then show False using assms(2) by (meson set_dropWhileD)
  qed
  then show ?thesis using assms by (simp add: rewrites_href_def abs_href_def js_starts_with_def)
qed

end
