(* ===== verification/Sidebar.thy ===== *)
theory Sidebar
  imports Html Url "HOL-Library.While_Combinator"
begin

text \<open>
  The first half of \<^verbatim>\<open>connectedCallback\<close> (\<^verbatim>\<open>src/toc.js\<close>, lines 11--41): the
  navigation markup replaces the element's content, the current page is computed, and
  every link of the new content is visited in tree order. A visit rewrites a relative
  \<^verbatim>\<open>href\<close> by prefixing \<^verbatim>\<open>path_to_root\<close> (lines 21--24), compares the link's
  resolved URL with the current page (line 26), and for a match marks the link
  \<^verbatim>\<open>active\<close>, expands its parent list item if that is a chapter item, and walks up
  through every ancestor: each ancestor that is an \<^verbatim>\<open>LI\<close> with a previous element
  sibling of class \<^verbatim>\<open>chapter-item\<close> gets that sibling expanded (lines 27--39).

  The page context (\<open>page_ctx\<close>) holds what the code reads from outside the element:
  the browser's URL parser for this document, the global \<^verbatim>\<open>path_to_root\<close>, and
  \<^verbatim>\<open>document.location.href\<close>. The document is a \<open>node\<close> of the DOM theory and the
  custom element is a path \<open>h\<close> in it.
\<close>

record page_ctx =
  resolve :: "string \<Rightarrow> string option"
  path_to_root :: string
  location :: string

subsection \<open>Marking the active link (lines 27--39)\<close>

definition expand_if_chapter :: "path \<Rightarrow> node \<Rightarrow> node" where
  "expand_if_chapter q d =
     (if class_at d q ''chapter-item'' then update_at q (add_class ''expanded'') d else d)"

text \<open>The \<^verbatim>\<open>while (parent)\<close> loop: \<open>None\<close> is a null \<^verbatim>\<open>parent\<close>. Each round
  (\<open>walk_body\<close>, lines 33--37) looks at the previous element sibling of an \<^verbatim>\<open>LI\<close>,
  and the loop then moves to the parent element (line 38).\<close>

definition walk_body :: "path \<Rightarrow> node \<Rightarrow> node" where
  "walk_body q d =
     (if tag_at d q = Some ''LI'' then
        (case prev_elem_sibling d q of Some s \<Rightarrow> expand_if_chapter s d | None \<Rightarrow> d)
      else d)"

function expand_ancestors :: "path option \<Rightarrow> node \<Rightarrow> node" where
  "expand_ancestors None d = d"
| "expand_ancestors (Some q) d = expand_ancestors (parent_path q) (walk_body q d)"
  by pat_completeness auto
termination
  by (relation "measure (\<lambda>(q, d). case q of None \<Rightarrow> 0 | Some p \<Rightarrow> Suc (length p))")
     (auto simp: parent_path_def)

declare expand_ancestors.simps(2) [simp del]

text \<open>The same loop written as the source writes it: a \<^verbatim>\<open>while\<close> over the state
  \<open>(parent, document)\<close>, one body per round, stopping when \<^verbatim>\<open>parent\<close> is null.
  \<open>while_option\<close> is \<open>None\<close> exactly when the loop does not stop.\<close>

definition walk_step :: "path option \<times> node \<Rightarrow> path option \<times> node" where
  "walk_step s =
     (case s of
        (Some q, d) \<Rightarrow> (parent_path q, walk_body q d)
      | (None, d) \<Rightarrow> (None, d))"

definition walk_loop :: "path option \<Rightarrow> node \<Rightarrow> node option" where
  "walk_loop parent d =
     map_option snd (while_option (\<lambda>(parent, _). parent \<noteq> None) walk_step (parent, d))"

definition mark_active :: "path \<Rightarrow> node \<Rightarrow> node" where
  "mark_active p d =
     (let d1 = update_at p (add_class ''active'') d;
          parent = parent_path p;
          d2 = (case parent of Some q \<Rightarrow> expand_if_chapter q d1 | None \<Rightarrow> d1)
      in expand_ancestors parent d2)"

subsection \<open>Visiting one link (lines 20--40)\<close>

text \<open>The condition of line 26: the link's URL is the current page, or the link is the
  first one, \<^verbatim>\<open>path_to_root\<close> is empty and the current page is an index page.\<close>

definition link_matches :: "page_ctx \<Rightarrow> string \<Rightarrow> nat \<Rightarrow> string \<Rightarrow> bool" where
  "link_matches ctx cur i link_href \<longleftrightarrow>
     link_href = cur \<or> (i = 0 \<and> path_to_root ctx = [] \<and> js_ends_with cur ''/index.html'')"

definition rewrite_link :: "page_ctx \<Rightarrow> path \<Rightarrow> node \<Rightarrow> node" where
  "rewrite_link ctx p d =
     (case attr_at d p ''href'' of
        Some h \<Rightarrow> if rewrites_href (Some h) then update_at p (set_attr ''href'' (path_to_root ctx @ h)) d else d
      | None \<Rightarrow> d)"

definition visit_link :: "page_ctx \<Rightarrow> string \<Rightarrow> nat \<Rightarrow> path \<Rightarrow> node \<Rightarrow> node" where
  "visit_link ctx cur i p d =
     (let d1 = rewrite_link ctx p d;
          link_href = href_prop (resolve ctx) (attr_at d1 p ''href'')
      in if link_matches ctx cur i link_href then mark_active p d1 else d1)"

fun activate_links :: "page_ctx \<Rightarrow> string \<Rightarrow> nat \<Rightarrow> path list \<Rightarrow> node \<Rightarrow> node" where
  "activate_links ctx cur i [] d = d"
| "activate_links ctx cur i (p # ps) d = activate_links ctx cur (Suc i) ps (visit_link ctx cur i p d)"

subsection \<open>Rendering (lines 11--41)\<close>

text \<open>\<^verbatim>\<open>this.querySelectorAll("a")\<close>: the anchors below the element, in tree order.\<close>

definition anchors :: "node \<Rightarrow> path \<Rightarrow> path list" where
  "anchors d h = filter (\<lambda>q. tag_at d q = Some ''A'') (descendants d h)"

text \<open>Line 11: \<^verbatim>\<open>this.innerHTML = toc_markup\<close>, the fragment parser's nodes as the
  element's new children.\<close>

definition install_toc :: "path \<Rightarrow> node \<Rightarrow> node" where
  "install_toc h d =
     (case parse_fragment toc_markup of Some cs \<Rightarrow> update_at h (set_children cs) d | None \<Rightarrow> d)"

definition render_toc :: "page_ctx \<Rightarrow> path \<Rightarrow> node \<Rightarrow> node" where
  "render_toc ctx h d =
     (let d1 = install_toc h d
      in activate_links ctx (current_page (location ctx)) 0 (anchors d1 h) d1)"

subsection \<open>The link target\<close>

text \<open>The \<^verbatim>\<open>href\<close> attribute after lines 21--24, and the URL line 26 compares.\<close>

definition rewritten_href :: "page_ctx \<Rightarrow> DOMString option \<Rightarrow> DOMString option" where
  "rewritten_href ctx a =
     (case a of
        Some h \<Rightarrow> if rewrites_href (Some h) then Some (path_to_root ctx @ h) else Some h
      | None \<Rightarrow> None)"

definition link_target :: "page_ctx \<Rightarrow> path \<Rightarrow> node \<Rightarrow> string" where
  "link_target ctx p d = href_prop (resolve ctx) (rewritten_href ctx (attr_at d p ''href''))"

subsection \<open>Specification of the marking\<close>

text \<open>The abstract specification of lines 19--41 for the class \<^verbatim>\<open>active\<close>: the
  links, in visiting order, whose target satisfies the condition of line 26 at their
  index.\<close>

fun matched_links :: "page_ctx \<Rightarrow> string \<Rightarrow> nat \<Rightarrow> path list \<Rightarrow> node \<Rightarrow> path list" where
  "matched_links ctx cur i [] d = []"
| "matched_links ctx cur i (p # ps) d =
     (if link_matches ctx cur i (link_target ctx p d) then [p] else []) @ matched_links ctx cur (Suc i) ps d"

definition active_spec :: "page_ctx \<Rightarrow> path \<Rightarrow> node \<Rightarrow> path list" where
  "active_spec ctx h d =
     (let d1 = install_toc h d in matched_links ctx (current_page (location ctx)) 0 (anchors d1 h) d1)"

text \<open>The items that lines 28--39 expand for an active link \<open>p\<close>: its parent when
  that is a chapter item, and the previous element sibling of every \<^verbatim>\<open>LI\<close> ancestor
  (the link's own item included) when that sibling is a chapter item.\<close>

definition expands_for :: "node \<Rightarrow> path \<Rightarrow> path \<Rightarrow> bool" where
  "expands_for d p s \<longleftrightarrow>
     class_at d s ''chapter-item'' \<and>
     ((p \<noteq> [] \<and> s = butlast p) \<or>
      list_ex (\<lambda>k. tag_at d (take k p) = Some ''LI'' \<and> prev_elem_sibling d (take k p) = Some s)
        [0..<length p])"

subsection \<open>The installed tree\<close>

lemma install_toc_tree: "install_toc h d = update_at h (set_children [toc_tree]) d"
  by (simp add: install_toc_def parse_toc_markup)

declare install_toc_tree [code]

subsection \<open>Frame lemmas\<close>

lemma parent_path_snoc [simp]: "parent_path (xs @ [x]) = Some xs"
  by (simp add: parent_path_def)

lemma ws_token_classes [simp]: "ws_token ''active''" "ws_token ''expanded''"
  by (simp_all add: ws_token_def is_ws_def)

lemma class_at_elem_at: "class_at d q u \<Longrightarrow> elem_at d q"
  using attrs_at_elem_at [of d q] by (auto simp: class_at_def split: option.splits)

lemma attr_at_elem_at: "attr_at d q k = Some v \<Longrightarrow> elem_at d q"
  using attrs_at_elem_at [of d q] by (auto simp: attr_at_def split: option.splits)

lemma skel_expand_if_chapter [simp]: "skel (expand_if_chapter q d) = skel d"
  by (simp add: expand_if_chapter_def)

lemma skel_walk_body [simp]: "skel (walk_body q d) = skel d"
  by (simp add: walk_body_def split: option.splits)

lemma skel_expand_ancestors [simp]: "skel (expand_ancestors par d) = skel d"
  by (induction par d rule: expand_ancestors.induct) (auto simp: expand_ancestors.simps(2) split: option.splits)

lemma skel_mark_active [simp]: "skel (mark_active p d) = skel d"
  by (simp add: mark_active_def Let_def split: option.splits)

lemma skel_rewrite_link [simp]: "skel (rewrite_link ctx p d) = skel d"
  by (simp add: rewrite_link_def split: option.splits)

lemma skel_visit_link [simp]: "skel (visit_link ctx cur i p d) = skel d"
  by (simp add: visit_link_def Let_def)

lemma skel_activate_links [simp]: "skel (activate_links ctx cur i ps d) = skel d"
  by (induction ps arbitrary: i d) simp_all

lemma class_expand_if_chapter:
  "class_at (expand_if_chapter s d) q u \<longleftrightarrow>
     class_at d q u \<or> (u = ''expanded'' \<and> q = s \<and> class_at d s ''chapter-item'')"
  by (auto simp: expand_if_chapter_def class_at_add_class dest: class_at_elem_at)

lemma attr_expand_if_chapter [simp]:
  "k \<noteq> ''class'' \<Longrightarrow> attr_at (expand_if_chapter s d) q k = attr_at d q k"
  by (simp add: expand_if_chapter_def)

lemma class_walk_body:
  "class_at (walk_body q d) r u \<longleftrightarrow>
     class_at d r u \<or>
     (u = ''expanded'' \<and> tag_at d q = Some ''LI'' \<and> prev_elem_sibling d q = Some r \<and>
      class_at d r ''chapter-item'')"
  by (auto simp: walk_body_def class_expand_if_chapter split: option.splits)

lemma attr_walk_body [simp]: "k \<noteq> ''class'' \<Longrightarrow> attr_at (walk_body q d) r k = attr_at d r k"
  by (simp add: walk_body_def split: option.splits)

lemma class_expand_ancestors_mono:
  "class_at d q u \<Longrightarrow> class_at (expand_ancestors par d) q u"
  by (induction par d rule: expand_ancestors.induct)
     (auto simp: expand_ancestors.simps(2) class_walk_body)

lemma class_expand_ancestors_other:
  "u \<noteq> ''expanded'' \<Longrightarrow> class_at (expand_ancestors par d) q u = class_at d q u"
  by (induction par d rule: expand_ancestors.induct)
     (auto simp: expand_ancestors.simps(2) class_walk_body)

lemma attr_expand_ancestors [simp]:
  "k \<noteq> ''class'' \<Longrightarrow> attr_at (expand_ancestors par d) q k = attr_at d q k"
  by (induction par d rule: expand_ancestors.induct) (auto simp: expand_ancestors.simps(2) split: option.splits)

lemma class_mark_active_mono: "class_at d q u \<Longrightarrow> class_at (mark_active p d) q u"
  by (auto simp: mark_active_def Let_def class_at_add_class class_expand_if_chapter
           intro!: class_expand_ancestors_mono split: option.splits)

lemma class_mark_active_active:
  "class_at (mark_active p d) q ''active'' \<longleftrightarrow> class_at d q ''active'' \<or> (q = p \<and> elem_at d p)"
  by (auto simp: mark_active_def Let_def class_at_add_class class_expand_if_chapter
           class_expand_ancestors_other split: option.splits)

lemma attr_mark_active [simp]: "k \<noteq> ''class'' \<Longrightarrow> attr_at (mark_active p d) q k = attr_at d q k"
  by (simp add: mark_active_def Let_def split: option.splits)

lemma class_rewrite_link [simp]: "class_at (rewrite_link ctx p d) q u = class_at d q u"
  by (simp add: rewrite_link_def split: option.splits)

lemma href_rewrite_link:
  "attr_at (rewrite_link ctx p d) q ''href'' =
     (if q = p then rewritten_href ctx (attr_at d p ''href'') else attr_at d q ''href'')"
  by (auto simp: rewrite_link_def rewritten_href_def attr_at_set_attr dest: attr_at_elem_at
           split: option.splits)

lemma elem_at_visit [simp]: "elem_at (visit_link ctx cur i p d) = elem_at d"
  by (rule same_skel_queries(3)) simp

lemma visit_target: "href_prop (resolve ctx) (attr_at (rewrite_link ctx p d) p ''href'') = link_target ctx p d"
  by (simp add: href_rewrite_link link_target_def)

lemma class_visit_active:
  "class_at (visit_link ctx cur i p d) q ''active'' \<longleftrightarrow>
     class_at d q ''active'' \<or> (q = p \<and> elem_at d p \<and> link_matches ctx cur i (link_target ctx p d))"
proof -
  have "elem_at (rewrite_link ctx p d) = elem_at d" by (rule same_skel_queries(3)) simp
  then show ?thesis by (simp add: visit_link_def Let_def visit_target class_mark_active_active)
qed

lemma class_visit_mono: "class_at d q u \<Longrightarrow> class_at (visit_link ctx cur i p d) q u"
  by (simp add: visit_link_def Let_def class_mark_active_mono)

lemma href_visit_link:
  "attr_at (visit_link ctx cur i p d) q ''href'' =
     (if q = p then rewritten_href ctx (attr_at d p ''href'') else attr_at d q ''href'')"
  by (simp add: visit_link_def Let_def href_rewrite_link)

lemma target_visit_other: "q \<noteq> p \<Longrightarrow> link_target ctx q (visit_link ctx cur i p d) = link_target ctx q d"
  by (simp add: link_target_def href_visit_link)

subsection \<open>The active links\<close>

lemma matched_links_cong:
  "\<forall>q \<in> set ps. link_target ctx q d' = link_target ctx q d \<Longrightarrow>
   matched_links ctx cur i ps d' = matched_links ctx cur i ps d"
  by (induction ps arbitrary: i) simp_all

lemma matched_links_subset: "set (matched_links ctx cur i ps d) \<subseteq> set ps"
  by (induction ps arbitrary: i) auto

theorem activate_links_active:
  assumes "distinct ps" and "\<forall>p \<in> set ps. elem_at d p"
  shows "class_at (activate_links ctx cur i ps d) q ''active'' \<longleftrightarrow>
           class_at d q ''active'' \<or> q \<in> set (matched_links ctx cur i ps d)"
  using assms
proof (induction ps arbitrary: i d)
  case Nil
  then show ?case by simp
next
  case (Cons p ps)
  let ?d' = "visit_link ctx cur i p d"
  have ih: "class_at (activate_links ctx cur (Suc i) ps ?d') q ''active'' \<longleftrightarrow>
              class_at ?d' q ''active'' \<or> q \<in> set (matched_links ctx cur (Suc i) ps ?d')"
    using Cons.prems by (intro Cons.IH) auto
  have "matched_links ctx cur (Suc i) ps ?d' = matched_links ctx cur (Suc i) ps d"
    using Cons.prems(1) by (intro matched_links_cong ballI target_visit_other) auto
  then show ?case
    using ih Cons.prems by (auto simp: class_visit_active)
qed

lemma class_activate_mono: "class_at d q u \<Longrightarrow> class_at (activate_links ctx cur i ps d) q u"
  by (induction ps arbitrary: i d) (simp_all add: class_visit_mono)

subsection \<open>The expanded items\<close>

lemma expands_for_keep:
  assumes "expands_for d p s" and "skel d' = skel d"
    and "class_at d s ''chapter-item'' \<Longrightarrow> class_at d' s ''chapter-item''"
  shows "expands_for d' p s"
  using assms same_skel_queries(2,5) [OF assms(2)] by (simp add: expands_for_def)

lemma expand_ancestors_expands:
  assumes "k \<le> length q" and "tag_at d (take k q) = Some ''LI''"
    and "prev_elem_sibling d (take k q) = Some s" and "class_at d s ''chapter-item''"
  shows "class_at (expand_ancestors (Some q) d) s ''expanded''"
  using assms
proof (induction q arbitrary: d k rule: rev_induct)
  case Nil
  then show ?case
    by (simp add: expand_ancestors.simps(2) [of "[]"] parent_path_def class_walk_body)
next
  case (snoc x xs)
  let ?d' = "walk_body (xs @ [x]) d"
  have step: "expand_ancestors (Some (xs @ [x])) d = expand_ancestors (Some xs) ?d'"
    by (simp only: expand_ancestors.simps(2) [of "xs @ [x]"] parent_path_snoc)
  have skel': "skel ?d' = skel d" by simp
  have mono: "class_at d q u \<Longrightarrow> class_at ?d' q u" for q u
    by (simp add: class_walk_body)
  show ?case
  proof (cases "k = length (xs @ [x])")
    case True
    then have "class_at ?d' s ''expanded''" using snoc.prems by (simp add: class_walk_body)
    then show ?thesis using step by (simp add: class_expand_ancestors_mono)
  next
    case False
    then have k: "k \<le> length xs" and tk: "take k (xs @ [x]) = take k xs" using snoc.prems(1) by auto
    have "class_at (expand_ancestors (Some xs) ?d') s ''expanded''"
    proof (rule snoc.IH [OF k])
      show "tag_at ?d' (take k xs) = Some ''LI''"
        using snoc.prems(2) tk same_skel_queries(2) [OF skel'] by simp
      show "prev_elem_sibling ?d' (take k xs) = Some s"
        using snoc.prems(3) tk same_skel_queries(5) [OF skel'] by simp
      show "class_at ?d' s ''chapter-item''" using snoc.prems(4) by (rule mono)
    qed
    then show ?thesis using step by simp
  qed
qed

theorem mark_active_expands:
  assumes "expands_for d p s"
  shows "class_at (mark_active p d) s ''expanded''"
proof -
  let ?d1 = "update_at p (add_class ''active'') d"
  have ch: "class_at ?d1 s ''chapter-item''"
    using assms by (simp add: expands_for_def class_at_add_class)
  have e1: "expands_for ?d1 p s"
    using assms by (rule expands_for_keep) (simp_all add: class_at_add_class)
  from assms consider "p \<noteq> []" "s = butlast p"
    | k where "k < length p" "tag_at d (take k p) = Some ''LI''" "prev_elem_sibling d (take k p) = Some s"
    by (auto simp: expands_for_def list_ex_iff)
  then show ?thesis
  proof cases
    case 1
    then show ?thesis using ch
      by (simp add: mark_active_def Let_def parent_path_def class_expand_if_chapter class_expand_ancestors_mono)
  next
    case (2 k)
    let ?d2 = "expand_if_chapter (butlast p) ?d1"
    have p: "p \<noteq> []" and k: "k \<le> length (butlast p)" and tk: "take k (butlast p) = take k p"
      using 2(1) by (auto simp: take_butlast)
    have "expands_for ?d2 p s"
      using e1 by (rule expands_for_keep) (simp_all add: class_expand_if_chapter)
    then have "tag_at ?d2 (take k p) = Some ''LI''" "prev_elem_sibling ?d2 (take k p) = Some s"
      using 2 same_skel_queries(2,5) [of ?d2 d] by simp_all
    moreover have "class_at ?d2 s ''chapter-item''" using ch by (simp add: class_expand_if_chapter)
    ultimately have "class_at (expand_ancestors (Some (butlast p)) ?d2) s ''expanded''"
      using k tk by (intro expand_ancestors_expands [of k]) simp_all
    then show ?thesis using p by (simp add: mark_active_def Let_def parent_path_def)
  qed
qed

theorem activate_links_expanded:
  assumes "distinct ps" and "\<forall>q \<in> set ps. elem_at d q"
    and "p \<in> set (matched_links ctx cur i ps d)" and "expands_for d p s"
  shows "class_at (activate_links ctx cur i ps d) s ''expanded''"
  using assms
proof (induction ps arbitrary: i d)
  case Nil
  then show ?case by simp
next
  case (Cons q ps)
  let ?d' = "visit_link ctx cur i q d"
  have m: "matched_links ctx cur (Suc i) ps ?d' = matched_links ctx cur (Suc i) ps d"
    using Cons.prems(1) by (intro matched_links_cong ballI target_visit_other) auto
  show ?case
  proof (cases "p = q \<and> link_matches ctx cur i (link_target ctx q d)")
    case True
    have "expands_for (rewrite_link ctx q d) p s"
      using Cons.prems(4) by (rule expands_for_keep) simp_all
    with True have "class_at ?d' s ''expanded''"
      by (simp add: visit_link_def Let_def visit_target mark_active_expands)
    then show ?thesis by (simp add: class_activate_mono)
  next
    case False
    then have "p \<in> set (matched_links ctx cur (Suc i) ps d)" using Cons.prems(3) by (auto split: if_splits)
    moreover have "expands_for ?d' p s"
      using Cons.prems(4) by (rule expands_for_keep) (simp_all add: class_visit_mono)
    ultimately show ?thesis
      using Cons.prems(1,2) m by (simp add: Cons.IH)
  qed
qed

subsection \<open>The while loop of lines 32--39\<close>

lemma walk_none: "(walk_step ^^ k) (None, d) = (None, d)"
  by (induction k) (simp_all add: walk_step_def)

lemma walk_step_Some: "\<exists>d'. walk_step (Some q, d) = (parent_path q, d')"
  by (simp add: walk_step_def)

lemma while_walk:
  "while_option (\<lambda>(parent, _). parent \<noteq> None) walk_step (parent, d) = Some (None, expand_ancestors parent d)"
proof (induction parent d rule: expand_ancestors.induct)
  case (1 d)
  then show ?case by (simp add: while_option_unfold [of _ _ "(None, d)"])
next
  case (2 q d)
  then show ?case
    by (simp add: while_option_unfold [of _ _ "(Some q, d)"] walk_step_def expand_ancestors.simps(2))
qed

lemma walk_rounds:
  "fst ((walk_step ^^ k) (Some q, d)) = (if k \<le> length q then Some (take (length q - k) q) else None)"
proof (induction k arbitrary: q d)
  case 0
  then show ?case by simp
next
  case (Suc k)
  obtain d' where s: "walk_step (Some q, d) = (parent_path q, d')" using walk_step_Some by blast
  have "(walk_step ^^ Suc k) (Some q, d) = (walk_step ^^ k) (parent_path q, d')"
    by (simp add: funpow_Suc_right s del: funpow.simps)
  then show ?case
    by (cases q rule: rev_cases) (auto simp: parent_path_def Suc.IH walk_none)
qed

subsection \<open>Rendering\<close>

lemma anchors_elements: "distinct (anchors d h) \<and> (\<forall>q \<in> set (anchors d h). elem_at d q)"
  by (auto simp: anchors_def distinct_descendants intro: tag_at_elem_at)

text \<open>C1. After connectedCallback's link loop, an element has the class 'active' exactly when it had it after the markup was installed or it is one of the links the abstract specification selects: those whose resolved (rewritten) href equals the current page, or the first link under the index alias of line 26.\<close>

theorem render_toc_active:
  "class_at (render_toc ctx h d) q ''active'' \<longleftrightarrow>
     class_at (install_toc h d) q ''active'' \<or> q \<in> set (active_spec ctx h d)"
  using anchors_elements [of "install_toc h d" h]
  by (simp add: render_toc_def active_spec_def Let_def activate_links_active)

text \<open>C2. For every link the render marks active, its parent chapter item and the previous chapter-item sibling of every LI ancestor (the items the parentElement walk reaches) carry the class 'expanded' after the render.\<close>

theorem render_toc_expanded:
  assumes "p \<in> set (active_spec ctx h d)" and "expands_for (install_toc h d) p s"
  shows "class_at (render_toc ctx h d) s ''expanded''"
  using assms anchors_elements [of "install_toc h d" h]
  by (simp add: render_toc_def active_spec_def Let_def activate_links_expanded)

subsection \<open>What the render leaves outside the element\<close>

lemma tag_at_install_toc: "prefix q h \<Longrightarrow> tag_at (install_toc h d) q = tag_at d q"
proof (cases "q = h")
  case True
  then show ?thesis
    by (auto simp: install_toc_tree tag_at_def node_at_update_at_self split: option.splits node.splits)
next
  case False
  assume "prefix q h"
  then have "\<not> prefix h q" using False by (metis prefix_order.antisym)
  then show ?thesis by (simp add: install_toc_tree tag_at_update_outside)
qed

lemma attrs_expand_if_chapter_other: "r \<noteq> s \<Longrightarrow> attrs_at (expand_if_chapter s d) r = attrs_at d r"
  by (simp add: expand_if_chapter_def add_class_def attrs_at_update_at)

lemma expand_ancestors_frame:
  assumes "\<forall>k \<le> length h. tag_at d (take k h) \<noteq> Some ''LI''"
    and "prefix h q \<or> prefix q h" and "\<not> prefix h r"
  shows "attrs_at (expand_ancestors (Some q) d) r = attrs_at d r"
  using assms
proof (induction q arbitrary: d rule: rev_induct)
  case Nil
  have "tag_at d [] \<noteq> Some ''LI''" using Nil.prems(1) by (metis le0 take0)
  then show ?case by (simp add: expand_ancestors.simps(2) [of "[]"] parent_path_def walk_body_def)
next
  case (snoc x xs)
  let ?q = "xs @ [x]"
  let ?d' = "walk_body ?q d"
  have step: "expand_ancestors (Some ?q) d = expand_ancestors (Some xs) ?d'"
    by (simp only: expand_ancestors.simps(2) [of ?q] parent_path_snoc)
  have skel': "skel ?d' = skel d" by simp
  have r': "attrs_at ?d' r = attrs_at d r"
  proof (cases "tag_at d ?q = Some ''LI''")
    case True
    have "\<not> prefix ?q h"
    proof
      assume pq: "prefix ?q h"
      have "length ?q \<le> length h" by (rule prefix_length_le [OF pq])
      moreover have "take (length ?q) h = ?q" by (rule prefix_take_length [OF pq])
      ultimately show False using snoc.prems(1) True by metis
    qed
    then have "prefix h xs" using snoc.prems(2) by (auto simp: prefix_snoc)
    then have "s \<noteq> r" if "prev_elem_sibling d ?q = Some s" for s
      using prev_elem_sibling_Some [OF that] snoc.prems(3) by (auto simp: prefix_snoc)
    then show ?thesis using snoc.prems(3)
      by (auto simp: walk_body_def attrs_expand_if_chapter_other split: option.splits)
  next
    case False
    then show ?thesis by (simp add: walk_body_def)
  qed
  have "attrs_at (expand_ancestors (Some xs) ?d') r = attrs_at ?d' r"
  proof (rule snoc.IH)
    show "\<forall>k \<le> length h. tag_at ?d' (take k h) \<noteq> Some ''LI''"
      using snoc.prems(1) same_skel_queries(2) [OF skel'] by simp
    show "prefix h xs \<or> prefix xs h" using snoc.prems(2) by (rule comparable_butlast)
  qed (use snoc.prems(3) in simp)
  then show ?case using step r' by simp
qed

lemma mark_active_frame:
  assumes "\<forall>k \<le> length h. tag_at d (take k h) \<noteq> Some ''LI''"
    and "prefix h p" and "p \<noteq> h" and "\<not> prefix h r"
  shows "attrs_at (mark_active p d) r = attrs_at d r"
proof -
  let ?d1 = "update_at p (add_class ''active'') d"
  let ?d2 = "expand_if_chapter (butlast p) ?d1"
  have p: "p \<noteq> []" and pb: "prefix h (butlast p)" using assms(2,3) strict_prefix_butlast by auto
  have "r \<noteq> p" "r \<noteq> butlast p" using assms(2,4) pb by auto
  then have "attrs_at ?d2 r = attrs_at d r"
    by (simp add: attrs_expand_if_chapter_other add_class_def attrs_at_update_at)
  moreover have "attrs_at (expand_ancestors (Some (butlast p)) ?d2) r = attrs_at ?d2 r"
  proof (rule expand_ancestors_frame)
    show "\<forall>k \<le> length h. tag_at ?d2 (take k h) \<noteq> Some ''LI''"
      using assms(1) same_skel_queries(2) [of ?d2 d] by simp
  qed (use pb assms(4) in simp_all)
  ultimately show ?thesis using p by (simp add: mark_active_def Let_def parent_path_def)
qed

lemma visit_link_frame:
  assumes "\<forall>k \<le> length h. tag_at d (take k h) \<noteq> Some ''LI''"
    and "prefix h p" and "p \<noteq> h" and "\<not> prefix h r"
  shows "attrs_at (visit_link ctx cur i p d) r = attrs_at d r"
proof -
  let ?d1 = "rewrite_link ctx p d"
  have "r \<noteq> p" using assms(2,4) by auto
  then have r1: "attrs_at ?d1 r = attrs_at d r"
    by (simp add: rewrite_link_def set_attr_def attrs_at_update_at split: option.splits)
  have "attrs_at (mark_active p ?d1) r = attrs_at ?d1 r"
    using assms(1) same_skel_queries(2) [of ?d1 d] by (intro mark_active_frame [OF _ assms(2-4)]) simp
  then show ?thesis using r1 by (simp add: visit_link_def Let_def)
qed

lemma activate_links_frame:
  assumes "\<forall>k \<le> length h. tag_at d (take k h) \<noteq> Some ''LI''"
    and "\<forall>p \<in> set ps. prefix h p \<and> p \<noteq> h" and "\<not> prefix h r"
  shows "attrs_at (activate_links ctx cur i ps d) r = attrs_at d r"
  using assms
proof (induction ps arbitrary: i d)
  case Nil
  then show ?case by simp
next
  case (Cons p ps)
  let ?d' = "visit_link ctx cur i p d"
  have "\<forall>k \<le> length h. tag_at ?d' (take k h) \<noteq> Some ''LI''"
    using Cons.prems(1) same_skel_queries(2) [of ?d' d] by simp
  then have "attrs_at (activate_links ctx cur (Suc i) ps ?d') r = attrs_at ?d' r"
    using Cons.prems(2,3) by (intro Cons.IH) simp_all
  moreover have "attrs_at ?d' r = attrs_at d r"
    using Cons.prems by (intro visit_link_frame) simp_all
  ultimately show ?case by simp
qed

lemma anchors_below: "p \<in> set (anchors d h) \<Longrightarrow> prefix h p \<and> p \<noteq> h"
  by (auto simp: anchors_def descendants_def dest: elem_paths_from_ne split: option.splits node.splits)

subsection \<open>The render keeps trees well-formed\<close>

lemma wf_expand_if_chapter: "wf_node d \<Longrightarrow> wf_node (expand_if_chapter s d)"
  by (auto simp: expand_if_chapter_def intro: wf_update_at)

lemma wf_expand_ancestors: "wf_node d \<Longrightarrow> wf_node (expand_ancestors par d)"
proof (induction par d rule: expand_ancestors.induct)
  case (1 d)
  then show ?case by simp
next
  case (2 q d)
  then show ?case
    by (simp add: expand_ancestors.simps(2) [of q] walk_body_def wf_expand_if_chapter split: option.splits)
qed

lemma wf_mark_active: "wf_node d \<Longrightarrow> wf_node (mark_active p d)"
  by (auto simp: mark_active_def Let_def intro!: wf_expand_ancestors wf_expand_if_chapter wf_update_at
           split: option.splits)

lemma wf_visit_link: "wf_node d \<Longrightarrow> wf_node (visit_link ctx cur i p d)"
proof -
  assume "wf_node d"
  then have "wf_node (rewrite_link ctx p d)"
    by (auto simp: rewrite_link_def intro: wf_update_at split: option.splits)
  then show ?thesis by (simp add: visit_link_def Let_def wf_mark_active)
qed

lemma wf_activate_links: "wf_node d \<Longrightarrow> wf_node (activate_links ctx cur i ps d)"
  by (induction ps arbitrary: i d) (simp_all add: wf_visit_link)

lemma wf_render_toc: "wf_node d \<Longrightarrow> wf_node (render_toc ctx h d)"
proof -
  assume "wf_node d"
  then have "wf_node (install_toc h d)"
    using wf_toc_tree by (auto simp: install_toc_tree intro!: wf_update_at wf_set_children)
  then show ?thesis by (simp add: render_toc_def Let_def wf_activate_links)
qed

subsection \<open>Other classes and the installed markup\<close>

lemma class_mark_active_other:
  "u \<noteq> ''active'' \<Longrightarrow> u \<noteq> ''expanded'' \<Longrightarrow> class_at (mark_active p d) q u = class_at d q u"
  by (auto simp: mark_active_def Let_def class_at_add_class class_expand_if_chapter
           class_expand_ancestors_other split: option.splits)

lemma class_activate_other:
  "u \<noteq> ''active'' \<Longrightarrow> u \<noteq> ''expanded'' \<Longrightarrow> class_at (activate_links ctx cur i ps d) q u = class_at d q u"
  by (induction ps arbitrary: i d) (simp_all add: visit_link_def Let_def class_mark_active_other)

lemma class_render_other:
  "u \<noteq> ''active'' \<Longrightarrow> u \<noteq> ''expanded'' \<Longrightarrow> class_at (render_toc ctx h d) q u = class_at (install_toc h d) q u"
  by (simp add: render_toc_def Let_def class_activate_other)

lemma node_at_install_self: "node_at (install_toc h d) h = map_option (set_children [toc_tree]) (node_at d h)"
  by (simp add: install_toc_tree node_at_update_at_self)

lemma node_at_install_below:
  "node_at (install_toc h d) (h @ j # r) =
     (if elem_at d h \<and> j = 0 then node_at toc_tree r else None)"
proof (cases "node_at d h")
  case None
  then show ?thesis by (simp add: node_at_append node_at_install_self elem_at_def)
next
  case (Some n)
  then show ?thesis by (cases n) (auto simp: node_at_append node_at_install_self elem_at_def)
qed

lemma attrs_install_below:
  "attrs_at (install_toc h d) (h @ j # r) = (if elem_at d h \<and> j = 0 then attrs_at toc_tree r else None)"
  by (simp add: attrs_at_def node_at_install_below)

lemma class_install_below:
  "class_at (install_toc h d) (h @ j # r) u \<longleftrightarrow> elem_at d h \<and> j = 0 \<and> class_at toc_tree r u"
  by (simp add: class_at_def attrs_install_below)

lemma anchors_install_toc:
  assumes "elem_at d h"
  shows "anchors (install_toc h d) h =
           map (\<lambda>r. h @ 0 # r) (filter (\<lambda>r. tag_at toc_tree r = Some ''A'') (elem_paths toc_tree))"
proof -
  obtain t as cs where n: "node_at d h = Some (Element t as cs)"
    using assms by (auto simp: elem_at_def elim: is_element.elims split: option.splits)
  have "descendants (install_toc h d) h = map (\<lambda>r. h @ 0 # r) (elem_paths toc_tree)"
    by (simp add: descendants_def node_at_install_self n comp_def)
  moreover have "tag_at (install_toc h d) (h @ 0 # r) = tag_at toc_tree r" for r
    using assms by (simp add: tag_at_def node_at_install_below)
  ultimately show ?thesis by (simp add: anchors_def filter_map comp_def)
qed

lemma toc_tree_first_anchor:
  "filter (\<lambda>r. tag_at toc_tree r = Some ''A'') (elem_paths toc_tree) \<noteq> [] \<and>
   hd (filter (\<lambda>r. tag_at toc_tree r = Some ''A'') (elem_paths toc_tree)) = [0, 0] \<and>
   attr_at toc_tree [0, 0] ''href'' = Some ''GLOSSARY.html'' \<and> class_at toc_tree [0] ''affix''"
  by code_simp

lemma anchors_install_first:
  assumes "elem_at d h"
  shows "\<exists>ps. anchors (install_toc h d) h = (h @ [0, 0, 0]) # ps"
proof -
  obtain rs where "filter (\<lambda>r. tag_at toc_tree r = Some ''A'') (elem_paths toc_tree) = [0, 0] # rs"
    using toc_tree_first_anchor by (cases "filter (\<lambda>r. tag_at toc_tree r = Some ''A'') (elem_paths toc_tree)") auto
  then show ?thesis using anchors_install_toc [OF assms] by simp
qed

text \<open>C21. On a page at the root of the book that is an index page (\<^verbatim>\<open>path_to_root\<close> is
  empty and the current page ends in \<^verbatim>\<open>/index.html\<close>), the alias of line 26 marks the
  first link of the markup active whatever its target and whatever the resolver: that
  link is the Glossary entry, whose item is the prefix chapter of class
  \<^verbatim>\<open>affix\<close>, not the first chapter the comment of line 25 names.\<close>

theorem render_toc_index_alias:
  assumes "elem_at d h" and "path_to_root ctx = []"
    and "js_ends_with (current_page (location ctx)) ''/index.html''"
  shows "class_at (render_toc ctx h d) (h @ [0, 0, 0]) ''active'' \<and>
         attr_at (install_toc h d) (h @ [0, 0, 0]) ''href'' = Some ''GLOSSARY.html'' \<and>
         class_at (install_toc h d) (h @ [0, 0]) ''affix''"
proof -
  obtain ps where a: "anchors (install_toc h d) h = (h @ [0, 0, 0]) # ps"
    using anchors_install_first [OF assms(1)] by blast
  have "class_at (activate_links ctx (current_page (location ctx)) 0 (anchors (install_toc h d) h) (install_toc h d))
          (h @ [0, 0, 0]) ''active''"
    using anchors_elements [of "install_toc h d" h] assms(2,3) a
    by (simp add: activate_links_active class_visit_active link_matches_def)
  moreover have "attr_at (install_toc h d) (h @ [0, 0, 0]) ''href'' = Some ''GLOSSARY.html''"
    using assms(1) toc_tree_first_anchor by (simp add: attr_at_def attrs_install_below)
  moreover have "class_at (install_toc h d) (h @ [0, 0]) ''affix''"
    using assms(1) toc_tree_first_anchor by (simp add: class_install_below)
  ultimately show ?thesis by (simp add: render_toc_def Let_def)
qed

text \<open>C12. The \<^verbatim>\<open>while (parent)\<close> loop of lines 32--39 ends on every tree: started at
  a node at depth \<open>n\<close> it runs exactly \<open>n + 1\<close> rounds (the node and each of its
  ancestors, up to the document element, whose parent element is null), and its result
  is the one of the recursive \<open>expand_ancestors\<close> that \<open>mark_active\<close> uses.\<close>

theorem walk_loop_terminates:
  "walk_loop (Some q) d = Some (expand_ancestors (Some q) d) \<and>
   (fst ((walk_step ^^ k) (Some q, d)) = None \<longleftrightarrow> length q < k)"
  unfolding walk_loop_def while_walk by (simp add: walk_rounds)

lemma tag_at_render_toc: "\<not> strict_prefix h q \<Longrightarrow> tag_at (render_toc ctx h d) q = tag_at d q"
proof -
  assume q: "\<not> strict_prefix h q"
  have "skel (render_toc ctx h d) = skel (install_toc h d)" by (simp add: render_toc_def Let_def)
  then have "tag_at (render_toc ctx h d) q = tag_at (install_toc h d) q" by (metis tag_at_skel)
  also have "\<dots> = tag_at d q"
  proof (cases "q = h")
    case True
    then show ?thesis by (simp add: tag_at_install_toc)
  next
    case False
    then have "\<not> prefix h q" using q by (simp add: strict_prefix_def)
    then show ?thesis by (simp add: install_toc_tree tag_at_update_outside)
  qed
  finally show ?thesis .
qed

text \<open>C13. The render changes no attribute outside the custom element, provided no
  ancestor of the element (the element itself included) is an \<^verbatim>\<open>LI\<close>: the loop of
  lines 32--39 walks past the element up to the document element, and only an
  \<^verbatim>\<open>LI\<close> on that part of the walk could expand an item outside the sidebar.\<close>

theorem render_toc_frame:
  assumes "\<forall>k \<le> length h. tag_at d (take k h) \<noteq> Some ''LI''" and "\<not> prefix h r"
  shows "attrs_at (render_toc ctx h d) r = attrs_at d r"
proof -
  let ?d1 = "install_toc h d"
  have "\<forall>k \<le> length h. tag_at ?d1 (take k h) \<noteq> Some ''LI''"
    using assms(1) by (simp add: tag_at_install_toc take_is_prefix)
  then have "attrs_at (activate_links ctx (current_page (location ctx)) 0 (anchors ?d1 h) ?d1) r = attrs_at ?d1 r"
    using assms(2) anchors_below by (intro activate_links_frame) auto
  moreover have "attrs_at ?d1 r = attrs_at d r"
    using assms(2) by (simp add: install_toc_tree attrs_at_update_outside)
  ultimately show ?thesis by (simp add: render_toc_def Let_def)
qed

end
