(* ===== verification/Browser.thy ===== *)
theory Browser
  imports Sidebar
begin

text \<open>
  The browser state that the second half of \<^verbatim>\<open>connectedCallback\<close> and its event
  listeners act on, shared by the scroll and toggle components. \<open>browser\<close> holds the
  document, the page context of the sidebar theory, the session storage (\<open>None\<close> when
  accessing \<^verbatim>\<open>sessionStorage\<close> throws a \<^verbatim>\<open>SecurityError\<close>, as it does when
  storage is disabled), the element's \<^verbatim>\<open>scrollTop\<close> with its maximum, the registered
  click listeners in registration order (the node each is on, and which of the script's
  two functions it runs), the element last scrolled into view, and the errors that
  listeners threw (the browser reports them and goes on), the names defined in the
  window's \<^verbatim>\<open>customElements\<close> registry, and the elements whose custom element
  state is "custom" (constructed by a defined class).

  Scroll offsets are whole pixels (\<open>nat\<close>); \<open>nat_to_dec\<close> is \<^verbatim>\<open>String(n)\<close> for
  them and \<open>js_to_scroll\<close> is the conversion the \<^verbatim>\<open>scrollTop\<close> setter applies to a
  string: a decimal numeral (after trimming ASCII whitespace) gives its value, any other
  string gives \<^verbatim>\<open>NaN\<close>, which the setter turns into 0. Exponent, hexadecimal and
  fractional numerals are not modelled: the script only ever stores \<open>nat_to_dec\<close> of a
  scroll offset. The round trip \<open>js_to_scroll (nat_to_dec n) = n\<close> is proved here.
\<close>

datatype js_error = SecurityError | TypeError | NotSupportedError

datatype handler = Save_scroll | Toggle_section

record browser =
  doc :: node
  page :: page_ctx
  session :: "(string \<rightharpoonup> string) option"
  scroll_top :: nat
  scroll_max :: nat
  listeners :: "(path \<times> handler) list"
  into_view :: "path option"
  errors :: "js_error list"
  registry :: "string list"
  custom :: "path list"

subsection \<open>Session storage\<close>

definition storage_get :: "string \<Rightarrow> browser \<Rightarrow> js_error + string option" where
  "storage_get k b = (case session b of None \<Rightarrow> Inl SecurityError | Some m \<Rightarrow> Inr (m k))"

definition storage_set :: "string \<Rightarrow> string \<Rightarrow> browser \<Rightarrow> js_error + browser" where
  "storage_set k v b =
     (case session b of None \<Rightarrow> Inl SecurityError | Some m \<Rightarrow> Inr (b\<lparr>session := Some (m(k \<mapsto> v))\<rparr>))"

definition storage_remove :: "string \<Rightarrow> browser \<Rightarrow> js_error + browser" where
  "storage_remove k b =
     (case session b of None \<Rightarrow> Inl SecurityError | Some m \<Rightarrow> Inr (b\<lparr>session := Some (m(k := None))\<rparr>))"

subsection \<open>Numbers as strings\<close>

definition digit_chars :: string where
  "digit_chars = ''0123456789''"

fun nat_to_dec :: "nat \<Rightarrow> string" where
  "nat_to_dec n = (if n < 10 then [digit_chars ! n] else nat_to_dec (n div 10) @ [digit_chars ! (n mod 10)])"

definition digit_value :: "char \<Rightarrow> nat option" where
  "digit_value c = map_of (zip digit_chars [0, 1, 2, 3, 4, 5, 6, 7, 8, 9]) c"

fun dec_acc :: "nat \<Rightarrow> string \<Rightarrow> nat option" where
  "dec_acc a [] = Some a"
| "dec_acc a (c # cs) = (case digit_value c of None \<Rightarrow> None | Some v \<Rightarrow> dec_acc (10 * a + v) cs)"

definition dec_to_nat :: "string \<Rightarrow> nat option" where
  "dec_to_nat s = (if s = [] then None else dec_acc 0 s)"

definition trim_ws :: "string \<Rightarrow> string" where
  "trim_ws s = rev (dropWhile is_ws (rev (dropWhile is_ws s)))"

definition js_to_scroll :: "string \<Rightarrow> nat" where
  "js_to_scroll s = (case dec_to_nat (trim_ws s) of Some n \<Rightarrow> n | None \<Rightarrow> 0)"

text \<open>The \<^verbatim>\<open>scrollTop\<close> setter clamps to the scrollable range.\<close>

definition set_scroll_top :: "nat \<Rightarrow> browser \<Rightarrow> browser" where
  "set_scroll_top v b = b\<lparr>scroll_top := min v (scroll_max b)\<rparr>"

subsection \<open>Lemmas\<close>

declare nat_to_dec.simps [simp del]

lemma digit_value_digit: "n < 10 \<Longrightarrow> digit_value (digit_chars ! n) = Some n"
proof -
  assume "n < 10"
  then have "n \<in> {0, 1, 2, 3, 4, 5, 6, 7, 8, 9 :: nat}" by auto
  then show ?thesis by (auto simp: digit_value_def digit_chars_def)
qed

lemma dec_acc_append: "dec_acc a (xs @ ys) = (case dec_acc a xs of None \<Rightarrow> None | Some b \<Rightarrow> dec_acc b ys)"
  by (induction a xs rule: dec_acc.induct) (auto split: option.splits)

lemma nat_to_dec_ne: "nat_to_dec n \<noteq> []"
  by (subst nat_to_dec.simps) simp

lemma dec_acc_nat_to_dec: "dec_acc a (nat_to_dec n) = Some (a * 10 ^ length (nat_to_dec n) + n)"
proof (induction n arbitrary: a rule: nat_to_dec.induct)
  case (1 n)
  show ?case
  proof (cases "n < 10")
    case True
    then show ?thesis by (subst (1 2) nat_to_dec.simps) (simp add: digit_value_digit)
  next
    case False
    let ?k = "length (nat_to_dec (n div 10))"
    have ih: "dec_acc a (nat_to_dec (n div 10)) = Some (a * 10 ^ ?k + n div 10)"
      using "1.IH" False by simp
    have "10 * (a * 10 ^ ?k + n div 10) + n mod 10 = a * 10 ^ Suc ?k + n"
      by (simp add: algebra_simps)
    then show ?thesis
      using False ih by (subst (1 2) nat_to_dec.simps) (simp add: dec_acc_append digit_value_digit)
  qed
qed

theorem dec_to_nat_nat_to_dec: "dec_to_nat (nat_to_dec n) = Some n"
  by (simp add: dec_to_nat_def nat_to_dec_ne dec_acc_nat_to_dec)

lemma digit_chars_mem: "n < 10 \<Longrightarrow> digit_chars ! n \<in> set digit_chars"
  by (rule nth_mem) (simp add: digit_chars_def)

lemma nat_to_dec_digits: "set (nat_to_dec n) \<subseteq> set digit_chars"
proof (induction n rule: nat_to_dec.induct)
  case (1 n)
  then show ?case by (subst nat_to_dec.simps) (auto simp: digit_chars_mem)
qed

lemma trim_ws_no_ws:
  assumes "\<forall>c \<in> set s. \<not> is_ws c"
  shows "trim_ws s = s"
proof -
  have "dropWhile is_ws s = s" using assms by (cases s) auto
  moreover have "dropWhile is_ws (rev s) = rev s" using assms by (cases "rev s") (auto simp: Ball_set)
  ultimately show ?thesis by (simp add: trim_ws_def)
qed

lemma digits_not_ws: "c \<in> set digit_chars \<Longrightarrow> \<not> is_ws c"
  by (auto simp: digit_chars_def is_ws_def)

lemma trim_ws_nat_to_dec: "trim_ws (nat_to_dec n) = nat_to_dec n"
  using nat_to_dec_digits [of n] by (intro trim_ws_no_ws) (auto dest: digits_not_ws)

lemma dec_acc_digits: "dec_acc a s = Some n \<Longrightarrow> \<forall>c \<in> set s. \<not> is_ws c"
proof (induction a s rule: dec_acc.induct)
  case (2 a c cs)
  then obtain v where v: "digit_value c = Some v" by (auto split: option.splits)
  then have "c \<in> set digit_chars" by (auto simp: digit_value_def dest: map_of_SomeD set_zip_leftD)
  with 2 v show ?case by (auto dest: digits_not_ws)
qed simp

lemma js_to_scroll_dec: "dec_to_nat s = Some n \<Longrightarrow> js_to_scroll s = n"
  by (auto simp: js_to_scroll_def dec_to_nat_def trim_ws_no_ws dec_acc_digits split: if_splits)

lemma js_to_scroll_nat_to_dec: "js_to_scroll (nat_to_dec n) = n"
  by (simp add: js_to_scroll_def trim_ws_nat_to_dec dec_to_nat_nat_to_dec)

end
