(* ===== verification/Scroll.thy ===== *)
theory Scroll
  imports Browser
begin

text \<open>
  Scroll position persistence in \<^verbatim>\<open>src/toc.js\<close>:
  \<^item> \<open>save_scroll\<close> is the body of the click listener of lines 43--47: when the
    event's target is an anchor, \<^verbatim>\<open>String(this.scrollTop)\<close> is written under the key
    \<^verbatim>\<open>sidebar-scroll\<close> (\<^verbatim>\<open>setItem\<close> throws when storage is unavailable);
  \<^item> \<open>restore_scroll\<close> is lines 48--59: read the key, remove it, and if the value is a
    non-empty string assign it to \<^verbatim>\<open>scrollTop\<close>, otherwise scroll the first
    \<^verbatim>\<open>#sidebar .active\<close> element (\<open>active_section\<close>, in tree order) into view.
  \<^verbatim>\<open>scrollIntoView\<close> depends on layout, which is not modelled: its effect is recorded
  as the element it was called on (\<open>into_view\<close>).

  The lemmas give the result of each function on every branch, errors included, and the
  invariant \<open>scroll_top \<le> scroll_max\<close> that both keep.
\<close>

definition scroll_key :: string where
  "scroll_key = ''sidebar-scroll''"

definition save_scroll :: "path \<Rightarrow> browser \<Rightarrow> js_error + browser" where
  "save_scroll target b =
     (if tag_at (doc b) target = Some ''A''
      then storage_set scroll_key (nat_to_dec (scroll_top b)) b
      else Inr b)"

definition active_section :: "node \<Rightarrow> path option" where
  "active_section d = find (\<lambda>q. class_at d q ''active'' \<and> under_id d ''sidebar'' q) (elem_paths d)"

definition scroll_to_active :: "browser \<Rightarrow> browser" where
  "scroll_to_active b =
     (case active_section (doc b) of Some q \<Rightarrow> b\<lparr>into_view := Some q\<rparr> | None \<Rightarrow> b)"

definition restore_scroll :: "browser \<Rightarrow> js_error + browser" where
  "restore_scroll b =
     (case storage_get scroll_key b of
        Inl e \<Rightarrow> Inl e
      | Inr v \<Rightarrow>
          (case storage_remove scroll_key b of
             Inl e \<Rightarrow> Inl e
           | Inr b1 \<Rightarrow>
               Inr (case v of
                      Some s \<Rightarrow> if s \<noteq> [] then set_scroll_top (js_to_scroll s) b1 else scroll_to_active b1
                    | None \<Rightarrow> scroll_to_active b1)))"

definition scroll_ok :: "browser \<Rightarrow> bool" where
  "scroll_ok b \<longleftrightarrow> scroll_top b \<le> scroll_max b"

subsection \<open>The click listener\<close>

theorem save_scroll_anchor:
  assumes "tag_at (doc b) t = Some ''A''" and "session b = Some m"
  shows "save_scroll t b = Inr (b\<lparr>session := Some (m(scroll_key \<mapsto> nat_to_dec (scroll_top b)))\<rparr>)"
  using assms by (simp add: save_scroll_def storage_set_def)

lemma save_scroll_other: "tag_at (doc b) t \<noteq> Some ''A'' \<Longrightarrow> save_scroll t b = Inr b"
  by (simp add: save_scroll_def)

lemma save_scroll_disabled:
  "tag_at (doc b) t = Some ''A'' \<Longrightarrow> session b = None \<Longrightarrow> save_scroll t b = Inl SecurityError"
  by (simp add: save_scroll_def storage_set_def)

lemma save_scroll_frame:
  "save_scroll t b = Inr b' \<Longrightarrow>
     doc b' = doc b \<and> scroll_top b' = scroll_top b \<and> scroll_max b' = scroll_max b \<and>
     listeners b' = listeners b \<and> page b' = page b"
  by (auto simp: save_scroll_def storage_set_def split: if_splits option.splits)

subsection \<open>Restoring on render\<close>

theorem restore_scroll_saved:
  assumes "session b = Some m" and "m scroll_key = Some s" and "s \<noteq> []"
  shows "restore_scroll b =
           Inr (b\<lparr>session := Some (m(scroll_key := None)),
                  scroll_top := min (js_to_scroll s) (scroll_max b)\<rparr>)"
  using assms by (simp add: restore_scroll_def storage_get_def storage_remove_def set_scroll_top_def)

text \<open>C11. When no offset is stored, or the stored value is the empty string (falsy), the render removes the key, leaves scrollTop and the document as they were, and calls scrollIntoView on the first element in tree order that has the class 'active' and an ancestor with id 'sidebar' (querySelector('#sidebar .active')); when there is none, nothing is scrolled.\<close>

theorem restore_scroll_fallback:
  assumes "session b = Some m" and "m scroll_key = None \<or> m scroll_key = Some []"
  shows "restore_scroll b =
           Inr (b\<lparr>session := Some (m(scroll_key := None)),
                  into_view :=
                    (case find (\<lambda>q. class_at (doc b) q ''active'' \<and> under_id (doc b) ''sidebar'' q) (elem_paths (doc b)) of
                       Some q \<Rightarrow> Some q
                     | None \<Rightarrow> into_view b)\<rparr>)"
  using assms
  by (auto simp: restore_scroll_def storage_get_def storage_remove_def scroll_to_active_def active_section_def
           split: option.splits)

lemma restore_scroll_disabled: "session b = None \<Longrightarrow> restore_scroll b = Inl SecurityError"
  by (simp add: restore_scroll_def storage_get_def)

theorem restore_scroll_clears:
  assumes "session b = Some m"
  shows "\<exists>b'. restore_scroll b = Inr b' \<and> session b' = Some (m(scroll_key := None))"
  using assms
  by (auto simp: restore_scroll_def storage_get_def storage_remove_def set_scroll_top_def
                 scroll_to_active_def split: option.splits)

lemma restore_scroll_frame:
  "restore_scroll b = Inr b' \<Longrightarrow>
     doc b' = doc b \<and> listeners b' = listeners b \<and> scroll_max b' = scroll_max b \<and> page b' = page b \<and>
     registry b' = registry b \<and> custom b' = custom b \<and> errors b' = errors b"
  by (auto simp: restore_scroll_def storage_get_def storage_remove_def set_scroll_top_def
                 scroll_to_active_def split: option.splits if_splits sum.splits)

lemma restore_scroll_ok: "scroll_ok b \<Longrightarrow> restore_scroll b = Inr b' \<Longrightarrow> scroll_ok b'"
  by (auto simp: restore_scroll_def storage_get_def storage_remove_def set_scroll_top_def
                 scroll_to_active_def scroll_ok_def split: option.splits if_splits sum.splits)

lemma save_scroll_ok: "scroll_ok b \<Longrightarrow> save_scroll t b = Inr b' \<Longrightarrow> scroll_ok b'"
  using save_scroll_frame [of t b b'] by (simp add: scroll_ok_def)

end
