(* ===== verification/Toggle.thy ===== *)
theory Toggle
  imports Browser
begin

text \<open>
  The toggle controls of \<^verbatim>\<open>src/toc.js\<close>, lines 60--67. \<open>toggle_controls\<close> is
  \<^verbatim>\<open>document.querySelectorAll('#sidebar a.toggle')\<close> (anchors of class
  \<^verbatim>\<open>toggle\<close> below an element with id \<^verbatim>\<open>sidebar\<close>, in tree order);
  \<open>wire_toggles\<close> adds a click listener running \<^verbatim>\<open>toggleSection\<close> to each of them;
  \<open>toggle_section\<close> is \<^verbatim>\<open>toggleSection\<close> on the listener's node (the event's
  \<^verbatim>\<open>currentTarget\<close>): it flips the class \<^verbatim>\<open>expanded\<close> of the parent element, and
  throws a \<^verbatim>\<open>TypeError\<close> when there is no parent element.

  The lemmas: a toggle flips \<^verbatim>\<open>expanded\<close> on the parent and changes no other class of
  any element, the skeleton and the listeners are
  untouched, and the navigation markup contains no toggle control at all.
\<close>

definition toggle_controls :: "node \<Rightarrow> path list" where
  "toggle_controls d =
     filter (\<lambda>q. tag_at d q = Some ''A'' \<and> class_at d q ''toggle'' \<and> under_id d ''sidebar'' q)
       (elem_paths d)"

definition toggle_section :: "path \<Rightarrow> browser \<Rightarrow> js_error + browser" where
  "toggle_section ct b =
     (case parent_path ct of
        None \<Rightarrow> Inl TypeError
      | Some q \<Rightarrow> Inr (b\<lparr>doc := update_at q (toggle_class ''expanded'') (doc b)\<rparr>))"

definition wire_toggles :: "browser \<Rightarrow> browser" where
  "wire_toggles b =
     b\<lparr>listeners := listeners b @ map (\<lambda>q. (q, Toggle_section)) (toggle_controls (doc b))\<rparr>"

subsection \<open>Lemmas\<close>

text \<open>C10. toggleSection on a control with a parent element flips the class 'expanded' of that parent and changes no other class of any element, siblings included.\<close>

theorem toggle_section_flips:
  assumes "ct \<noteq> []"
  shows "\<exists>b'. toggle_section ct b = Inr b' \<and>
           (\<forall>q u. class_at (doc b') q u \<longleftrightarrow>
              (if q = butlast ct \<and> u = ''expanded'' \<and> elem_at (doc b) q
               then \<not> class_at (doc b) q u else class_at (doc b) q u))"
  using assms by (simp add: toggle_section_def parent_path_def class_at_toggle_class)

lemma toggle_section_root: "toggle_section [] b = Inl TypeError"
  by (simp add: toggle_section_def parent_path_def)

lemma toggle_section_frame:
  "toggle_section ct b = Inr b' \<Longrightarrow>
     skel (doc b') = skel (doc b) \<and> session b' = session b \<and> scroll_top b' = scroll_top b \<and>
     scroll_max b' = scroll_max b \<and> listeners b' = listeners b \<and> page b' = page b"
  by (auto simp: toggle_section_def split: option.splits)

lemma toc_tree_no_toggle: "\<not> list_ex (\<lambda>q. class_at toc_tree q ''toggle'') (elem_paths toc_tree)"
  by code_simp

lemma toc_tree_class_toggle: "\<not> class_at toc_tree r ''toggle''"
  using toc_tree_no_toggle by (auto simp: list_ex_iff dest: class_at_elem_at elem_at_elem_paths)

lemma toggle_controls_render:
  "q \<in> set (toggle_controls (render_toc ctx h d)) \<Longrightarrow> \<not> strict_prefix h q"
proof
  assume q: "q \<in> set (toggle_controls (render_toc ctx h d))" and s: "strict_prefix h q"
  then obtain j r where qr: "q = h @ j # r"
    by (metis Cons_nth_drop_Suc append_take_drop_id prefix_length_less prefix_order.less_imp_le prefix_take_length)
  have "class_at (render_toc ctx h d) q ''toggle''" using q by (simp add: toggle_controls_def)
  then have "class_at toc_tree r ''toggle''" by (simp add: class_render_other qr class_install_below)
  then show False by (simp add: toc_tree_class_toggle)
qed

end
