(* ===== verification/Dispatch.thy ===== *)
theory Dispatch
  imports Scroll Toggle
begin

text \<open>
  The browser around the script: how a click reaches the listeners that
  \<^verbatim>\<open>src/toc.js\<close> registers (lines 43 and 66), and what a navigation keeps. This is
  the DOM and HTML standards' behaviour, not code of the repository.
  \<^item> \<open>dispatch_click t\<close> delivers a click on the element at path \<open>t\<close>: the listeners
    of the target and then of each ancestor run in registration order (bubbling; the
    script registers no capture listener), with \<^verbatim>\<open>currentTarget\<close> the node the listener
    is on; an exception of a listener is reported (\<open>errors\<close>) and the dispatch goes on.
  \<^item> \<open>navigate\<close> loads another document in the same tab: a new page context, no
    listeners, scroll offset 0, a new window with an empty custom element registry; the
    session storage survives.
  \<^item> \<open>detach_below h\<close> drops the listeners of the nodes strictly below \<open>h\<close>: replacing
    the children of \<open>h\<close> (the \<^verbatim>\<open>innerHTML\<close> setter) removes those nodes, and a
    listener of a removed node never runs again.

  The lemmas: what a listener run changes (only the session, the classes and the error
  list); that a click on an anchor below an element carrying the scroll listener
  stores the scroll offset, however many such listeners there are; and that a click on
  a toggle control flips its parent's \<^verbatim>\<open>expanded\<close> once per \<^verbatim>\<open>toggleSection\<close>
  listener it carries, so that two listeners cancel out.
\<close>

definition detach_below :: "path \<Rightarrow> (path \<times> handler) list \<Rightarrow> (path \<times> handler) list" where
  "detach_below h ls = filter (\<lambda>l. \<not> strict_prefix h (fst l)) ls"

fun run_handler :: "path \<Rightarrow> path \<Rightarrow> handler \<Rightarrow> browser \<Rightarrow> js_error + browser" where
  "run_handler ct t Save_scroll b = save_scroll t b"
| "run_handler ct t Toggle_section b = toggle_section ct b"

definition handler_step :: "path \<Rightarrow> path \<Rightarrow> browser \<Rightarrow> handler \<Rightarrow> browser" where
  "handler_step ct t b hk =
     (case run_handler ct t hk b of Inl e \<Rightarrow> b\<lparr>errors := errors b @ [e]\<rparr> | Inr b' \<Rightarrow> b')"

definition handlers_on :: "path \<Rightarrow> browser \<Rightarrow> handler list" where
  "handlers_on q b = map snd (filter (\<lambda>l. fst l = q) (listeners b))"

definition propagation_path :: "path \<Rightarrow> path list" where
  "propagation_path t = map (\<lambda>k. take k t) (rev [0..<Suc (length t)])"

fun dispatch_along :: "path \<Rightarrow> path list \<Rightarrow> browser \<Rightarrow> browser" where
  "dispatch_along t [] b = b"
| "dispatch_along t (q # qs) b = dispatch_along t qs (foldl (handler_step q t) b (handlers_on q b))"

definition dispatch_click :: "path \<Rightarrow> browser \<Rightarrow> browser" where
  "dispatch_click t b = dispatch_along t (propagation_path t) b"

definition navigate :: "node \<Rightarrow> page_ctx \<Rightarrow> nat \<Rightarrow> browser \<Rightarrow> browser" where
  "navigate d ctx mx b =
     b\<lparr>doc := d, page := ctx, scroll_top := 0, scroll_max := mx, listeners := [], into_view := None,
       registry := [], custom := []\<rparr>"

subsection \<open>Listener runs\<close>

lemma handler_step_session:
  assumes "session b = Some m"
  shows "session (handler_step q t b hk) =
           (if hk = Save_scroll \<and> tag_at (doc b) t = Some ''A''
            then Some (m(scroll_key \<mapsto> nat_to_dec (scroll_top b))) else Some m)"
  using assms
  by (cases hk) (auto simp: handler_step_def save_scroll_def storage_set_def toggle_section_def
                      split: option.splits)

lemma handler_step_frame:
  "scroll_top (handler_step q t b hk) = scroll_top b \<and> skel (doc (handler_step q t b hk)) = skel (doc b) \<and>
   listeners (handler_step q t b hk) = listeners b"
  by (cases hk) (auto simp: handler_step_def save_scroll_def storage_set_def toggle_section_def
                      split: option.splits sum.splits)

lemma foldl_handlers_frame:
  "scroll_top (foldl (handler_step q t) b hs) = scroll_top b \<and>
   skel (doc (foldl (handler_step q t) b hs)) = skel (doc b) \<and>
   listeners (foldl (handler_step q t) b hs) = listeners b"
  by (induction hs arbitrary: b) (simp_all add: handler_step_frame)

lemma foldl_handlers_session:
  assumes "session b = Some m" and "tag_at (doc b) t = Some ''A''"
  shows "session (foldl (handler_step q t) b hs) =
           (if Save_scroll \<in> set hs then Some (m(scroll_key \<mapsto> nat_to_dec (scroll_top b))) else Some m)"
  using assms
proof (induction hs arbitrary: b m)
  case Nil
  then show ?case by simp
next
  case (Cons hk hs)
  let ?b' = "handler_step q t b hk"
  let ?m' = "if hk = Save_scroll then m(scroll_key \<mapsto> nat_to_dec (scroll_top b)) else m"
  have s: "session ?b' = Some ?m'" using Cons.prems by (simp add: handler_step_session)
  have f: "scroll_top ?b' = scroll_top b" "tag_at (doc ?b') t = Some ''A''"
    using handler_step_frame [of q t b hk] Cons.prems(2) same_skel_queries(2) [of "doc ?b'" "doc b"]
    by simp_all
  show ?case using Cons.IH [OF s f(2)] f(1) by auto
qed

lemma dispatch_along_frame:
  "scroll_top (dispatch_along t qs b) = scroll_top b \<and> skel (doc (dispatch_along t qs b)) = skel (doc b) \<and>
   listeners (dispatch_along t qs b) = listeners b"
  by (induction qs arbitrary: b) (simp_all add: foldl_handlers_frame)

lemma dispatch_along_session:
  assumes "session b = Some m" and "tag_at (doc b) t = Some ''A''"
  shows "session (dispatch_along t qs b) =
           (if \<exists>q \<in> set qs. Save_scroll \<in> set (handlers_on q b)
            then Some (m(scroll_key \<mapsto> nat_to_dec (scroll_top b))) else Some m)"
  using assms
proof (induction qs arbitrary: b m)
  case Nil
  then show ?case by simp
next
  case (Cons q qs)
  let ?b' = "foldl (handler_step q t) b (handlers_on q b)"
  let ?m' = "if Save_scroll \<in> set (handlers_on q b) then m(scroll_key \<mapsto> nat_to_dec (scroll_top b)) else m"
  have s: "session ?b' = Some ?m'" using Cons.prems by (simp add: foldl_handlers_session)
  have f: "scroll_top ?b' = scroll_top b" "tag_at (doc ?b') t = Some ''A''" "handlers_on r ?b' = handlers_on r b"
    for r
    using foldl_handlers_frame [of q t b "handlers_on q b"] Cons.prems(2)
      same_skel_queries(2) [of "doc ?b'" "doc b"]
    by (simp_all add: handlers_on_def)
  show ?case using Cons.IH [OF s f(2)] f(1,3) by auto
qed

lemma propagation_path_prefix: "prefix h t \<Longrightarrow> h \<in> set (propagation_path t)"
proof -
  assume "prefix h t"
  then obtain zs where t: "t = h @ zs" by (auto simp: prefix_def)
  then have "length h \<in> set (rev [0..<Suc (length t)])" and "h = take (length h) t" by simp_all
  then show ?thesis unfolding propagation_path_def set_map by (rule rev_image_eqI)
qed

lemma dispatch_click_session:
  assumes "session b = Some m" and "(h, Save_scroll) \<in> set (listeners b)" and "prefix h t"
    and "tag_at (doc b) t = Some ''A''"
  shows "session (dispatch_click t b) = Some (m(scroll_key \<mapsto> nat_to_dec (scroll_top b)))"
proof -
  have "Save_scroll \<in> set (handlers_on h b)"
    using assms(2) by (force simp: handlers_on_def)
  then show ?thesis
    using assms propagation_path_prefix [OF assms(3)]
    by (auto simp: dispatch_click_def dispatch_along_session)
qed

lemma navigate_session [simp]: "session (navigate d ctx mx b) = session b"
  by (simp add: navigate_def)

subsection \<open>Classes during a click\<close>

lemma handler_step_class:
  "class_at (doc (handler_step q t b hk)) r u \<longleftrightarrow>
     (class_at (doc b) r u \<noteq>
        (hk = Toggle_section \<and> q \<noteq> [] \<and> r = butlast q \<and> u = ''expanded'' \<and> elem_at (doc b) r))"
  by (cases hk) (auto simp: handler_step_def save_scroll_def storage_set_def toggle_section_def
                      parent_path_def class_at_toggle_class split: option.splits)

lemma foldl_handlers_class:
  "class_at (doc (foldl (handler_step q t) b hs)) r u \<longleftrightarrow>
     (class_at (doc b) r u \<noteq>
        (odd (count_list hs Toggle_section) \<and> q \<noteq> [] \<and> r = butlast q \<and> u = ''expanded'' \<and> elem_at (doc b) r))"
proof (induction hs arbitrary: b)
  case Nil
  then show ?case by simp
next
  case (Cons hk hs)
  have e: "elem_at (doc (handler_step q t b k)) = elem_at (doc b)" for k
    by (rule same_skel_queries(3)) (use handler_step_frame [of q t b k] in simp)
  show ?case using Cons.IH [of "handler_step q t b hk"] by (cases hk) (auto simp: e handler_step_class)
qed

lemma dispatch_along_class_other:
  assumes "\<forall>q \<in> set qs. q \<noteq> [] \<longrightarrow> butlast q \<noteq> r"
  shows "class_at (doc (dispatch_along t qs b)) r u = class_at (doc b) r u"
  using assms by (induction qs arbitrary: b) (auto simp: foldl_handlers_class)

lemma propagation_path_Cons: "propagation_path t = t # map (\<lambda>k. take k t) (rev [0..<length t])"
  by (simp add: propagation_path_def)

lemma dispatch_along_no_toggle:
  assumes "\<forall>q \<in> set qs. Toggle_section \<notin> set (handlers_on q b)"
  shows "class_at (doc (dispatch_along t qs b)) r u = class_at (doc b) r u"
  using assms
proof (induction qs arbitrary: b)
  case Nil
  then show ?case by simp
next
  case (Cons q qs)
  let ?b' = "foldl (handler_step q t) b (handlers_on q b)"
  have l: "handlers_on p ?b' = handlers_on p b" for p
    using foldl_handlers_frame [of q t b "handlers_on q b"] by (simp add: handlers_on_def)
  have c: "class_at (doc ?b') r u = class_at (doc b) r u"
    using Cons.prems by (simp add: foldl_handlers_class count_list_0_iff)
  show ?case using Cons.IH [of ?b'] Cons.prems l c by simp
qed

subsection \<open>Clicks without storage\<close>

lemma handler_step_no_storage:
  assumes "session b = None" and "tag_at (doc b) t = Some ''A''" and "q = [] \<longrightarrow> hk \<noteq> Toggle_section"
  shows "errors (handler_step q t b hk) = errors b @ (if hk = Save_scroll then [SecurityError] else []) \<and>
         session (handler_step q t b hk) = None"
  using assms
  by (cases hk) (auto simp: handler_step_def save_scroll_def storage_set_def toggle_section_def parent_path_def
                      split: option.splits)

lemma foldl_no_storage:
  assumes "session b = None" and "tag_at (doc b) t = Some ''A''" and "q = [] \<longrightarrow> Toggle_section \<notin> set hs"
  shows "errors (foldl (handler_step q t) b hs) = errors b @ replicate (count_list hs Save_scroll) SecurityError \<and>
         session (foldl (handler_step q t) b hs) = None"
  using assms
proof (induction hs arbitrary: b)
  case Nil
  then show ?case by simp
next
  case (Cons hk hs)
  let ?b' = "handler_step q t b hk"
  have s: "errors ?b' = errors b @ (if hk = Save_scroll then [SecurityError] else [])" "session ?b' = None"
    using handler_step_no_storage [of b t q hk] Cons.prems by auto
  have "tag_at (doc ?b') t = Some ''A''"
    using Cons.prems(2) same_skel_queries(2) [of "doc ?b'" "doc b"] handler_step_frame [of q t b hk] by simp
  then show ?case using Cons.IH [of ?b'] Cons.prems(3) s by (auto simp: replicate_add [symmetric])
qed

lemma dispatch_along_no_storage:
  assumes "session b = None" and "tag_at (doc b) t = Some ''A''"
    and "\<forall>q \<in> set qs. q = [] \<longrightarrow> Toggle_section \<notin> set (handlers_on q b)"
  shows "errors (dispatch_along t qs b) =
           errors b @ replicate (sum_list (map (\<lambda>q. count_list (handlers_on q b) Save_scroll) qs)) SecurityError \<and>
         session (dispatch_along t qs b) = None"
  using assms
proof (induction qs arbitrary: b)
  case Nil
  then show ?case by simp
next
  case (Cons q qs)
  let ?b' = "foldl (handler_step q t) b (handlers_on q b)"
  have f: "errors ?b' = errors b @ replicate (count_list (handlers_on q b) Save_scroll) SecurityError" "session ?b' = None"
    using foldl_no_storage [of b t q "handlers_on q b"] Cons.prems by auto
  have l: "handlers_on p ?b' = handlers_on p b" for p
    using foldl_handlers_frame [of q t b "handlers_on q b"] by (simp add: handlers_on_def)
  have "tag_at (doc ?b') t = Some ''A''"
    using Cons.prems(2) same_skel_queries(2) [of "doc ?b'" "doc b"] foldl_handlers_frame [of q t b "handlers_on q b"]
    by simp
  then show ?case using Cons.IH [of ?b'] Cons.prems(3) f l by (simp add: replicate_add [symmetric])
qed

subsection \<open>A click on a sidebar link\<close>

text \<open>C3. A click whose target is an anchor below the element that carries the scroll listener leaves session storage holding String(scrollTop) at the time of the click under 'sidebar-scroll', and does not change the scroll offset.\<close>

theorem click_saves_scroll:
  assumes "session b = Some m" and "(h, Save_scroll) \<in> set (listeners b)" and "prefix h t"
    and "tag_at (doc b) t = Some ''A''"
  shows "session (dispatch_click t b) = Some (m(scroll_key \<mapsto> nat_to_dec (scroll_top b))) \<and>
         scroll_top (dispatch_click t b) = scroll_top b"
  using dispatch_click_session [OF assms] dispatch_along_frame [of t "propagation_path t" b]
  by (simp add: dispatch_click_def)

subsection \<open>A click on a toggle control\<close>

text \<open>C15. A click on an element flips the class expanded of its parent exactly when the element carries an odd number of toggleSection listeners (lines 62-66): each listener run toggles it once, and the listeners of the ancestors toggle other elements.\<close>

theorem click_toggle_parity:
  assumes "elem_at (doc b) t" and "t \<noteq> []"
  shows "class_at (doc (dispatch_click t b)) (butlast t) ''expanded'' \<longleftrightarrow>
           (class_at (doc b) (butlast t) ''expanded'' \<noteq> odd (count_list (handlers_on t b) Toggle_section))"
proof -
  let ?b1 = "foldl (handler_step t t) b (handlers_on t b)"
  have p: "elem_at (doc b) (butlast t)"
    using assms elem_at_parent [of "doc b" "butlast t" "last t"] by simp
  have "\<forall>q \<in> set (map (\<lambda>k. take k t) (rev [0..<length t])). q \<noteq> [] \<longrightarrow> butlast q \<noteq> butlast t"
    using assms(2) by (auto simp: length_butlast dest!: arg_cong [of _ _ length])
  then have "class_at (doc (dispatch_click t b)) (butlast t) ''expanded'' = class_at (doc ?b1) (butlast t) ''expanded''"
    by (simp add: dispatch_click_def propagation_path_Cons dispatch_along_class_other)
  then show ?thesis using p assms(2) by (simp add: foldl_handlers_class)
qed

text \<open>C18. A click on a toggle control that carries one toggleSection listener, below no other toggle control, flips the expanded state of its section (the control's parent element) and changes no other class of any element, sibling sections included.\<close>

theorem click_toggle_flips_only:
  assumes "elem_at (doc b) t" and "t \<noteq> []" and "count_list (handlers_on t b) Toggle_section = 1"
    and "\<forall>q. strict_prefix q t \<longrightarrow> Toggle_section \<notin> set (handlers_on q b)"
  shows "class_at (doc (dispatch_click t b)) q u \<longleftrightarrow>
           (if q = butlast t \<and> u = ''expanded'' then \<not> class_at (doc b) q u else class_at (doc b) q u)"
proof -
  let ?b1 = "foldl (handler_step t t) b (handlers_on t b)"
  let ?qs = "map (\<lambda>k. take k t) (rev [0..<length t])"
  have p: "elem_at (doc b) (butlast t)"
    using assms(1,2) elem_at_parent [of "doc b" "butlast t" "last t"] by simp
  have l: "handlers_on p ?b1 = handlers_on p b" for p
    using foldl_handlers_frame [of t t b "handlers_on t b"] by (simp add: handlers_on_def)
  have "\<forall>q \<in> set ?qs. Toggle_section \<notin> set (handlers_on q ?b1)"
    using assms(4) take_strict_prefix_less [of _ t] by (auto simp: l)
  then have "class_at (doc (dispatch_click t b)) q u = class_at (doc ?b1) q u"
    by (simp add: dispatch_click_def propagation_path_Cons dispatch_along_no_toggle)
  then show ?thesis using p assms(2,3) by (auto simp: foldl_handlers_class)
qed

subsection \<open>A click when storage is unavailable\<close>

text \<open>C20. When session storage is unavailable, a click on an anchor makes every scroll-saving listener on its propagation path throw SecurityError from setItem (line 45): the browser reports one SecurityError per such listener, the other listeners still run, and the storage stays unavailable.\<close>

theorem click_storage_disabled:
  assumes "session b = None" and "tag_at (doc b) t = Some ''A''"
    and "Toggle_section \<notin> set (handlers_on [] b)"
  shows "errors (dispatch_click t b) =
           errors b @ replicate (sum_list (map (\<lambda>q. count_list (handlers_on q b) Save_scroll) (propagation_path t)))
                        SecurityError \<and>
         session (dispatch_click t b) = None"
  using dispatch_along_no_storage [of b t "propagation_path t"] assms by (simp add: dispatch_click_def)

end
