(* ===== verification/Element.thy ===== *)
theory Element
  imports Dispatch
begin

text \<open>
  The custom element of \<^verbatim>\<open>src/toc.js\<close> (lines 6--70) and its registration.
  \<^item> \<open>callback_render h\<close> is lines 11--47 on the element at path \<open>h\<close>: the render of
    the sidebar theory (the \<^verbatim>\<open>innerHTML\<close> assignment also detaches the listeners of
    the element's old content) and the click listener of line 43, registered on the
    element itself.
  \<^item> \<open>connected_callback h\<close> is \<^verbatim>\<open>connectedCallback\<close> (lines 10--68): the above, the
    scroll restore of lines 48--59 and the toggle listeners of lines 61--67. An
    exception leaves the callback at the statement that threw, with the effects before
    it in place: the result is \<open>Inl (e, b)\<close> with that state.
  \<^item> \<open>sidebar_constructor\<close> is the class's constructor (lines 6--9), which only calls
    \<^verbatim>\<open>super()\<close>: once it has run, the element is a custom element (its custom element
    state is "custom", recorded in \<open>custom\<close>).
  \<^item> \<open>upgrade\<close> is the HTML standard's upgrade of one element: nothing for an element
    that is already custom; otherwise the constructor, then, as long as the element is
    still in the document at that place, its \<^verbatim>\<open>connectedCallback\<close>, whose exception
    is reported and goes no further.
  \<^item> \<open>define_sidebar\<close> is \<^verbatim>\<open>customElements.define\<close> of line 70: a
    \<^verbatim>\<open>NotSupportedError\<close> when the name is already defined in the window's registry,
    otherwise the name is defined and the \<^verbatim>\<open><mdbook-sidebar-scrollbox>\<close> elements of
    the document, collected first in tree order, are upgraded in that order.
    \<open>run_script\<close> runs the script: its only top-level statement is line 70, and an
    exception thrown there is reported.
  \<^item> \<open>connect_host h\<close> is the insertion of the element at \<open>h\<close> into the document
    after the definition (for instance when it is moved): a custom element gets its
    \<^verbatim>\<open>connectedCallback\<close> again, an element not yet upgraded is upgraded.
\<close>

definition callback_render :: "path \<Rightarrow> browser \<Rightarrow> browser" where
  "callback_render h b =
     (let b1 = b\<lparr>doc := render_toc (page b) h (doc b), listeners := detach_below h (listeners b)\<rparr>
      in b1\<lparr>listeners := listeners b1 @ [(h, Save_scroll)]\<rparr>)"

definition connected_callback :: "path \<Rightarrow> browser \<Rightarrow> (js_error \<times> browser) + browser" where
  "connected_callback h b =
     (let b2 = callback_render h b
      in case restore_scroll b2 of
           Inl e \<Rightarrow> Inl (e, b2)
         | Inr b3 \<Rightarrow> Inr (wire_toggles b3))"

definition report :: "(js_error \<times> browser) + browser \<Rightarrow> browser" where
  "report r = (case r of Inl (e, b) \<Rightarrow> b\<lparr>errors := errors b @ [e]\<rparr> | Inr b \<Rightarrow> b)"

definition sidebar_name :: string where
  "sidebar_name = ''mdbook-sidebar-scrollbox''"

definition is_host :: "node \<Rightarrow> path \<Rightarrow> bool" where
  "is_host d q \<longleftrightarrow> tag_at d q = Some (map ascii_upper sidebar_name)"

definition sidebar_hosts :: "node \<Rightarrow> path list" where
  "sidebar_hosts d = filter (is_host d) (elem_paths d)"

definition sidebar_constructor :: "path \<Rightarrow> browser \<Rightarrow> browser" where
  "sidebar_constructor h b = b\<lparr>custom := custom b @ [h]\<rparr>"

definition upgrade :: "path \<Rightarrow> browser \<Rightarrow> browser" where
  "upgrade h b =
     (if h \<in> set (custom b) then b
      else let b1 = sidebar_constructor h b
           in if is_host (doc b1) h then report (connected_callback h b1) else b1)"

definition define_sidebar :: "browser \<Rightarrow> js_error + browser" where
  "define_sidebar b =
     (if sidebar_name \<in> set (registry b) then Inl NotSupportedError
      else Inr (fold upgrade (sidebar_hosts (doc b)) (b\<lparr>registry := registry b @ [sidebar_name]\<rparr>)))"

definition run_script :: "browser \<Rightarrow> browser" where
  "run_script b = (case define_sidebar b of Inl e \<Rightarrow> b\<lparr>errors := errors b @ [e]\<rparr> | Inr b' \<Rightarrow> b')"

definition connect_host :: "path \<Rightarrow> browser \<Rightarrow> browser" where
  "connect_host h b =
     (if sidebar_name \<in> set (registry b) \<and> is_host (doc b) h then
        (if h \<in> set (custom b) then report (connected_callback h b) else upgrade h b)
      else b)"

subsection \<open>The callback\<close>

lemma callback_render_simps [simp]:
  "doc (callback_render h b) = render_toc (page b) h (doc b)"
  "listeners (callback_render h b) = detach_below h (listeners b) @ [(h, Save_scroll)]"
  "session (callback_render h b) = session b"
  "scroll_top (callback_render h b) = scroll_top b"
  "scroll_max (callback_render h b) = scroll_max b"
  "page (callback_render h b) = page b"
  "registry (callback_render h b) = registry b"
  "custom (callback_render h b) = custom b"
  "errors (callback_render h b) = errors b"
  by (simp_all add: callback_render_def)

lemma connected_callback_restore:
  assumes "session b = Some m"
  shows "\<exists>b3. restore_scroll (callback_render h b) = Inr b3 \<and>
           connected_callback h b = Inr (wire_toggles b3) \<and> session b3 = Some (m(scroll_key := None))"
  using restore_scroll_clears [of "callback_render h b" m] assms
  by (auto simp: connected_callback_def)

text \<open>C7. When session storage is available, connectedCallback completes without an exception and removes the 'sidebar-scroll' key, leaving the rest of the storage unchanged.\<close>

theorem connected_callback_clears_key:
  assumes "session b = Some m"
  shows "\<exists>b'. connected_callback h b = Inr b' \<and> session b' = Some (m(scroll_key := None))"
  using connected_callback_restore [OF assms, of h] by (auto simp: wire_toggles_def)

lemma connected_callback_saved:
  assumes "session b = Some m" and "m scroll_key = Some s" and "s \<noteq> []"
  shows "\<exists>b'. connected_callback h b = Inr b' \<and> scroll_top b' = min (js_to_scroll s) (scroll_max b) \<and>
           session b' = Some (m(scroll_key := None))"
  using assms by (simp add: connected_callback_def restore_scroll_saved wire_toggles_def)

text \<open>C9. When sessionStorage is unavailable, connectedCallback throws a SecurityError at line 48 after the navigation has been rendered and the click listener registered; the scroll restore and the toggle listeners never happen.\<close>

theorem connected_callback_storage_error:
  assumes "session b = None"
  shows "connected_callback h b = Inl (SecurityError, callback_render h b)"
  using assms by (simp add: connected_callback_def restore_scroll_disabled)

text \<open>C22. When session storage is available, connectedCallback completes with the rendered
  navigation as the document and with exactly these listeners: the old ones minus those of
  the replaced children, the click listener of line 43 on the element, and one
  toggleSection listener (line 66) per '#sidebar a.toggle' control of the whole document in
  tree order; none of those controls lies inside the element, since the markup of line 11
  has no toggle control.\<close>

theorem connected_callback_listeners:
  assumes "session b = Some m"
  shows "\<exists>b'. connected_callback h b = Inr b' \<and> doc b' = render_toc (page b) h (doc b) \<and>
           listeners b' = detach_below h (listeners b) @ (h, Save_scroll) #
                            map (\<lambda>q. (q, Toggle_section)) (toggle_controls (render_toc (page b) h (doc b))) \<and>
           (\<forall>q \<in> set (toggle_controls (render_toc (page b) h (doc b))). \<not> strict_prefix h q)"
proof -
  obtain b3 where r: "restore_scroll (callback_render h b) = Inr b3"
    and c: "connected_callback h b = Inr (wire_toggles b3)"
    using connected_callback_restore [OF assms, of h] by blast
  have "doc b3 = render_toc (page b) h (doc b)" and "listeners b3 = detach_below h (listeners b) @ [(h, Save_scroll)]"
    using restore_scroll_frame [OF r] by simp_all
  then show ?thesis using c by (simp add: wire_toggles_def toggle_controls_render)
qed

lemma connected_callback_cases:
  "(\<exists>e. connected_callback h b = Inl (e, callback_render h b)) \<or>
   (\<exists>b3. restore_scroll (callback_render h b) = Inr b3 \<and> connected_callback h b = Inr (wire_toggles b3))"
  by (cases "restore_scroll (callback_render h b)") (simp_all add: connected_callback_def)

lemma report_callback_frame:
  "doc (report (connected_callback h b)) = render_toc (page b) h (doc b) \<and>
   page (report (connected_callback h b)) = page b \<and>
   scroll_max (report (connected_callback h b)) = scroll_max b \<and>
   registry (report (connected_callback h b)) = registry b \<and>
   custom (report (connected_callback h b)) = custom b \<and>
   (\<exists>ts. listeners (report (connected_callback h b)) = detach_below h (listeners b) @ (h, Save_scroll) # ts)"
  using connected_callback_cases [of h b]
  by (auto simp: report_def wire_toggles_def dest!: restore_scroll_frame)

subsection \<open>Registration\<close>

lemma upgrade_fresh:
  assumes "h \<notin> set (custom b)" and "is_host (doc b) h"
  shows "upgrade h b = report (connected_callback h (sidebar_constructor h b))"
  using assms by (simp add: upgrade_def Let_def sidebar_constructor_def)

lemma registry_upgrade [simp]: "registry (upgrade h b) = registry b"
  using report_callback_frame [of h] by (simp add: upgrade_def Let_def sidebar_constructor_def)

lemma registry_fold_upgrade [simp]: "registry (fold upgrade hs b) = registry b"
  by (induction hs arbitrary: b) simp_all

lemma fold_upgrade:
  assumes "distinct hs" and "\<forall>h \<in> set hs. h \<notin> set (custom b) \<and> is_host (doc b) h"
    and "\<forall>h1 \<in> set hs. \<forall>h2 \<in> set hs. \<not> strict_prefix h1 h2"
  shows "custom (fold upgrade hs b) = custom b @ hs \<and>
         (\<forall>l \<in> set (listeners b). (\<forall>h \<in> set hs. \<not> strict_prefix h (fst l)) \<longrightarrow>
            l \<in> set (listeners (fold upgrade hs b))) \<and>
         (\<forall>h \<in> set hs. (h, Save_scroll) \<in> set (listeners (fold upgrade hs b)))"
  using assms
proof (induction hs arbitrary: b)
  case Nil
  then show ?case by simp
next
  case (Cons h hs)
  let ?b' = "upgrade h b"
  have u: "?b' = report (connected_callback h (sidebar_constructor h b))"
    using Cons.prems(2) by (simp add: upgrade_fresh)
  obtain ts where fr: "doc ?b' = render_toc (page b) h (doc b)" "custom ?b' = custom b @ [h]"
    "listeners ?b' = detach_below h (listeners b) @ (h, Save_scroll) # ts"
    using report_callback_frame [of h "sidebar_constructor h b"] u by (auto simp: sidebar_constructor_def)
  have host': "\<forall>h' \<in> set hs. h' \<notin> set (custom ?b') \<and> is_host (doc ?b') h'"
    using Cons.prems(1-3) fr(1,2) by (auto simp: is_host_def tag_at_render_toc)
  have IH: "custom (fold upgrade hs ?b') = custom ?b' @ hs \<and>
         (\<forall>l \<in> set (listeners ?b'). (\<forall>h \<in> set hs. \<not> strict_prefix h (fst l)) \<longrightarrow>
            l \<in> set (listeners (fold upgrade hs ?b'))) \<and>
         (\<forall>h \<in> set hs. (h, Save_scroll) \<in> set (listeners (fold upgrade hs ?b')))"
    using Cons.prems(1,3) host' by (intro Cons.IH) auto
  have keep: "l \<in> set (listeners ?b')" if "l \<in> set (listeners b)" "\<not> strict_prefix h (fst l)" for l
    using that fr(3) by (simp add: detach_below_def)
  have "\<not> strict_prefix h' h" if "h' \<in> set hs" for h'
    using Cons.prems(3) that by auto
  then show ?case using IH fr(2,3) keep by auto
qed

lemma sidebar_hosts_host: "h \<in> set (sidebar_hosts d) \<Longrightarrow> is_host d h"
  by (simp add: sidebar_hosts_def)

lemma distinct_sidebar_hosts: "distinct (sidebar_hosts d)"
  by (simp add: sidebar_hosts_def distinct_elem_paths)

text \<open>C14. Line 70 on a page whose registry does not yet define the name: the definition
  succeeds, and every \<^verbatim>\<open><mdbook-sidebar-scrollbox>\<close> of the document (none inside
  another) is upgraded exactly once, in tree order, and carries the click listener of
  line 43 afterwards.\<close>

theorem define_sidebar_upgrades:
  assumes "sidebar_name \<notin> set (registry b)" and "custom b = []"
    and "\<forall>h1 \<in> set (sidebar_hosts (doc b)). \<forall>h2 \<in> set (sidebar_hosts (doc b)). \<not> strict_prefix h1 h2"
  shows "\<exists>b'. define_sidebar b = Inr b' \<and> registry b' = registry b @ [sidebar_name] \<and>
           custom b' = sidebar_hosts (doc b) \<and>
           (\<forall>h \<in> set (sidebar_hosts (doc b)). (h, Save_scroll) \<in> set (listeners b'))"
proof -
  let ?b0 = "b\<lparr>registry := registry b @ [sidebar_name]\<rparr>"
  have "custom (fold upgrade (sidebar_hosts (doc b)) ?b0) = sidebar_hosts (doc b) \<and>
        (\<forall>h \<in> set (sidebar_hosts (doc b)). (h, Save_scroll) \<in> set (listeners (fold upgrade (sidebar_hosts (doc b)) ?b0)))"
    using fold_upgrade [of "sidebar_hosts (doc b)" ?b0] assms(2,3)
    by (simp add: distinct_sidebar_hosts sidebar_hosts_host)
  then show ?thesis using assms(1) by (simp add: define_sidebar_def)
qed

lemma define_sidebar_twice:
  assumes "define_sidebar b = Inr b'"
  shows "define_sidebar b' = Inl NotSupportedError \<and> run_script b' = b'\<lparr>errors := errors b' @ [NotSupportedError]\<rparr>"
  using assms by (auto simp: define_sidebar_def run_script_def split: if_splits)

subsection \<open>Re-connection\<close>

lemma report_callback_listeners:
  "\<exists>qs. listeners (report (connected_callback h b)) =
          detach_below h (listeners b) @ (h, Save_scroll) # map (\<lambda>q. (q, Toggle_section)) qs"
  using connected_callback_cases [of h b]
  by (auto simp: report_def wire_toggles_def dest!: restore_scroll_frame)

lemma count_save_callback:
  "count_list (handlers_on h (report (connected_callback h b))) Save_scroll =
     Suc (count_list (handlers_on h b) Save_scroll)"
proof -
  obtain qs where l: "listeners (report (connected_callback h b)) =
          detach_below h (listeners b) @ (h, Save_scroll) # map (\<lambda>q. (q, Toggle_section)) qs"
    using report_callback_listeners by blast
  have "count_list (map snd (filter (\<lambda>l. fst l = h) (map (\<lambda>q. (q, Toggle_section)) qs))) Save_scroll = 0"
    by (induction qs) auto
  moreover have "filter (\<lambda>l. fst l = h) (detach_below h (listeners b)) = filter (\<lambda>l. fst l = h) (listeners b)"
    by (auto simp: detach_below_def filter_filter intro: filter_cong)
  ultimately show ?thesis using l by (simp add: handlers_on_def)
qed

lemma connect_host_custom:
  assumes "sidebar_name \<in> set (registry b)" and "h \<in> set (custom b)" and "is_host (doc b) h"
  shows "connect_host h b = report (connected_callback h b) \<and>
         sidebar_name \<in> set (registry (connect_host h b)) \<and> h \<in> set (custom (connect_host h b)) \<and>
         is_host (doc (connect_host h b)) h"
  using assms report_callback_frame [of h b] by (simp add: connect_host_def is_host_def tag_at_render_toc)

text \<open>C17. Each time the sidebar element is connected again, connectedCallback registers one more click listener on it (line 43) and the class has no disconnectedCallback to remove the old ones: after n re-connections the element carries exactly n more scroll-saving listeners.\<close>

theorem reconnect_adds_listener:
  assumes "sidebar_name \<in> set (registry b)" and "h \<in> set (custom b)" and "is_host (doc b) h"
  shows "count_list (handlers_on h ((connect_host h ^^ n) b)) Save_scroll = count_list (handlers_on h b) Save_scroll + n"
proof -
  have "sidebar_name \<in> set (registry ((connect_host h ^^ n) b)) \<and> h \<in> set (custom ((connect_host h ^^ n) b)) \<and>
        is_host (doc ((connect_host h ^^ n) b)) h \<and>
        count_list (handlers_on h ((connect_host h ^^ n) b)) Save_scroll = count_list (handlers_on h b) Save_scroll + n"
  proof (induction n)
    case 0
    then show ?case using assms by simp
  next
    case (Suc n)
    let ?b = "(connect_host h ^^ n) b"
    have c: "connect_host h ?b = report (connected_callback h ?b)"
      and r: "sidebar_name \<in> set (registry (connect_host h ?b))" and u: "h \<in> set (custom (connect_host h ?b))"
      and i: "is_host (doc (connect_host h ?b)) h"
      using connect_host_custom [of ?b h] Suc.IH by blast+
    have "count_list (handlers_on h (connect_host h ?b)) Save_scroll = Suc (count_list (handlers_on h ?b) Save_scroll)"
      using c count_save_callback [of h ?b] by simp
    then show ?case using r u i Suc.IH by simp
  qed
  then show ?thesis by blast
qed

end
