(* ===== verification/Tab.thy ===== *)
theory Tab
  imports Element
begin

text \<open>
  A browser tab over time. Three kinds of event reach the script: a page load (the new
  document, its page context and scroll range, then the script, whose line 70 upgrades
  each sidebar element and runs its \<^verbatim>\<open>connectedCallback\<close>), a click on an element,
  and the insertion of a sidebar element into the document after the definition (a
  moved element is connected again).
  \<open>tab_step\<close> applies one event; \<open>reachable_tab b0\<close> is the set of states reachable from
  \<open>b0\<close> by any sequence of events, an inductive predicate.

  Two invariants hold in every reachable state, by rule induction: the scroll offset is
  within its range (\<open>scroll_ok\<close>), and the value stored under \<^verbatim>\<open>sidebar-scroll\<close>, if
  any, is a decimal numeral (\<open>stored_ok\<close>), because the only writer is the click
  listener, which stores \<^verbatim>\<open>String(scrollTop)\<close>. From the second, a page load in a
  reachable state restores exactly the offset that was saved, and clears the key; a
  stored offset survives any number of clicks until that load, while two loads with no
  click between them end in the scroll-into-view fallback. Runs of events (\<open>foldl
  tab_step\<close> over an event list) also keep the document well-formed (\<open>wf_node\<close>)
  when every loaded document is (\<open>wf_event\<close>).
\<close>

datatype tab_event = Load node page_ctx nat | Click path | Connect path

definition load_page :: "node \<Rightarrow> page_ctx \<Rightarrow> nat \<Rightarrow> browser \<Rightarrow> browser" where
  "load_page d ctx mx b = run_script (navigate d ctx mx b)"

fun tab_step :: "browser \<Rightarrow> tab_event \<Rightarrow> browser" where
  "tab_step b (Load d ctx mx) = load_page d ctx mx b"
| "tab_step b (Click t) = dispatch_click t b"
| "tab_step b (Connect h) = connect_host h b"

inductive reachable_tab :: "browser \<Rightarrow> browser \<Rightarrow> bool" where
  start: "reachable_tab b0 b0"
| step: "reachable_tab b0 b \<Longrightarrow> reachable_tab b0 (tab_step b e)"

definition stored_ok :: "browser \<Rightarrow> bool" where
  "stored_ok b \<longleftrightarrow>
     (case session b of
        None \<Rightarrow> True
      | Some m \<Rightarrow> (case m scroll_key of None \<Rightarrow> True | Some s \<Rightarrow> dec_to_nat s \<noteq> None))"

definition key_stored :: "browser \<Rightarrow> bool" where
  "key_stored b \<longleftrightarrow> (case session b of Some m \<Rightarrow> m scroll_key \<noteq> None | None \<Rightarrow> False)"

fun wf_event :: "tab_event \<Rightarrow> bool" where
  "wf_event (Load d ctx mx) \<longleftrightarrow> wf_node d"
| "wf_event (Click t) \<longleftrightarrow> True"
| "wf_event (Connect h) \<longleftrightarrow> True"

subsection \<open>One listener, one callback\<close>

lemma handler_step_scroll_max: "scroll_max (handler_step q t b hk) = scroll_max b"
  by (cases hk) (auto simp: handler_step_def save_scroll_def storage_set_def toggle_section_def
                      split: option.splits sum.splits)

lemma handler_step_stored_ok:
  assumes "stored_ok b"
  shows "stored_ok (handler_step q t b hk)"
proof (cases "session b")
  case None
  then have "session (handler_step q t b hk) = None"
    by (cases hk) (auto simp: handler_step_def save_scroll_def storage_set_def toggle_section_def
                        split: option.splits sum.splits)
  then show ?thesis by (simp add: stored_ok_def)
next
  case (Some m)
  then show ?thesis using assms by (auto simp: stored_ok_def handler_step_session dec_to_nat_nat_to_dec)
qed

lemma foldl_handlers_inv:
  "scroll_max (foldl (handler_step q t) b hs) = scroll_max b \<and>
   (stored_ok b \<longrightarrow> stored_ok (foldl (handler_step q t) b hs))"
  by (induction hs arbitrary: b) (simp_all add: handler_step_scroll_max handler_step_stored_ok)

lemma dispatch_click_inv:
  "scroll_max (dispatch_click t b) = scroll_max b \<and> scroll_top (dispatch_click t b) = scroll_top b \<and>
   (stored_ok b \<longrightarrow> stored_ok (dispatch_click t b))"
proof -
  have "scroll_max (dispatch_along t qs b) = scroll_max b \<and>
        (stored_ok b \<longrightarrow> stored_ok (dispatch_along t qs b))" for qs
    by (induction qs arbitrary: b) (simp_all add: foldl_handlers_inv)
  then show ?thesis using dispatch_along_frame [of t "propagation_path t" b]
    by (simp add: dispatch_click_def)
qed

lemma restore_scroll_stored_ok: "restore_scroll b = Inr b' \<Longrightarrow> stored_ok b'"
  by (auto simp: restore_scroll_def storage_get_def storage_remove_def set_scroll_top_def
                 scroll_to_active_def stored_ok_def split: option.splits sum.splits if_splits)

lemma callback_inv:
  assumes "scroll_ok b" and "stored_ok b"
  shows "scroll_ok (report (connected_callback h b)) \<and> stored_ok (report (connected_callback h b))"
proof -
  have ok2: "scroll_ok (callback_render h b)" "stored_ok (callback_render h b)"
    using assms by (simp_all add: scroll_ok_def stored_ok_def)
  from connected_callback_cases [of h b] show ?thesis
  proof
    assume "\<exists>e. connected_callback h b = Inl (e, callback_render h b)"
    then show ?thesis using ok2 by (auto simp: report_def scroll_ok_def stored_ok_def)
  next
    assume "\<exists>b3. restore_scroll (callback_render h b) = Inr b3 \<and> connected_callback h b = Inr (wire_toggles b3)"
    then obtain b3 where r: "restore_scroll (callback_render h b) = Inr b3"
      and c: "connected_callback h b = Inr (wire_toggles b3)" by blast
    have "scroll_ok b3" using restore_scroll_ok [OF ok2(1) r] .
    moreover have "stored_ok b3" using restore_scroll_stored_ok [OF r] .
    ultimately show ?thesis using c by (simp add: report_def wire_toggles_def scroll_ok_def stored_ok_def)
  qed
qed

lemma upgrade_inv:
  assumes "scroll_ok b" and "stored_ok b"
  shows "scroll_ok (upgrade h b) \<and> stored_ok (upgrade h b)"
proof -
  have "scroll_ok (sidebar_constructor h b)" "stored_ok (sidebar_constructor h b)"
    using assms by (simp_all add: sidebar_constructor_def scroll_ok_def stored_ok_def)
  then show ?thesis using assms callback_inv by (simp add: upgrade_def Let_def)
qed

lemma run_script_inv:
  assumes "scroll_ok b" and "stored_ok b"
  shows "scroll_ok (run_script b) \<and> stored_ok (run_script b)"
proof -
  have "scroll_ok (fold upgrade hs b) \<and> stored_ok (fold upgrade hs b)"
    if "scroll_ok b" "stored_ok b" for hs b
    using that by (induction hs arbitrary: b) (simp_all add: upgrade_inv)
  then show ?thesis using assms
    by (simp add: run_script_def define_sidebar_def scroll_ok_def stored_ok_def)
qed

lemma connect_host_inv:
  assumes "scroll_ok b" and "stored_ok b"
  shows "scroll_ok (connect_host h b) \<and> stored_ok (connect_host h b)"
  using assms callback_inv upgrade_inv by (simp add: connect_host_def)

subsection \<open>Invariants of a tab\<close>

lemma tab_step_inv:
  assumes "scroll_ok b" and "stored_ok b"
  shows "scroll_ok (tab_step b e) \<and> stored_ok (tab_step b e)"
proof (cases e)
  case (Load d ctx mx)
  have "scroll_ok (navigate d ctx mx b)" "stored_ok (navigate d ctx mx b)"
    using assms(2) by (simp_all add: scroll_ok_def stored_ok_def navigate_def)
  then show ?thesis using Load by (simp add: load_page_def run_script_inv)
next
  case (Click t)
  then show ?thesis using assms dispatch_click_inv [of t b] by (simp add: scroll_ok_def)
next
  case (Connect h)
  then show ?thesis using assms by (simp add: connect_host_inv)
qed

lemma reachable_tab_ok:
  assumes "reachable_tab b0 b" and "scroll_ok b0" and "stored_ok b0"
  shows "scroll_ok b \<and> stored_ok b"
  using assms
proof (induction rule: reachable_tab.induct)
  case start
  then show ?case by simp
next
  case (step b e)
  then show ?case by (simp add: tab_step_inv)
qed

text \<open>C6. Every state reachable by page loads, clicks and re-connections of the sidebar element keeps the scroll offset within its range and keeps the value stored under 'sidebar-scroll', when there is one, a decimal numeral.\<close>

theorem reachable_tab_inv:
  assumes "reachable_tab b0 b" and "scroll_ok b0" and "stored_ok b0"
  shows "scroll_ok b \<and> stored_ok b"
  using assms by (rule reachable_tab_ok)

subsection \<open>Page loads restore the saved offset\<close>

lemma load_page_single:
  assumes "sidebar_hosts d = [h]"
  shows "load_page d ctx mx b =
           report (connected_callback h (sidebar_constructor h
             ((navigate d ctx mx b)\<lparr>registry := [sidebar_name]\<rparr>)))"
proof -
  have "is_host d h" using assms sidebar_hosts_host [of h d] by simp
  then show ?thesis using assms
    by (simp add: load_page_def run_script_def define_sidebar_def navigate_def upgrade_fresh)
qed

lemma handler_step_key: "key_stored b \<Longrightarrow> key_stored (handler_step q t b hk)"
  by (auto simp: key_stored_def handler_step_session split: option.splits)

lemma dispatch_click_key: "key_stored b \<Longrightarrow> key_stored (dispatch_click t b)"
proof -
  have f: "key_stored b \<Longrightarrow> key_stored (foldl (handler_step q t) b hs)" for q b hs
    by (induction hs arbitrary: b) (simp_all add: handler_step_key)
  have "key_stored b \<Longrightarrow> key_stored (dispatch_along t qs b)" for qs b
    by (induction qs arbitrary: b) (simp_all add: f)
  then show "key_stored b \<Longrightarrow> key_stored (dispatch_click t b)" by (simp add: dispatch_click_def)
qed

lemma clicks_reachable:
  "reachable_tab b0 b \<Longrightarrow>
     reachable_tab b0 (foldl tab_step b (map Click ts)) \<and> (key_stored b \<longrightarrow> key_stored (foldl tab_step b (map Click ts)))"
proof (induction ts arbitrary: b)
  case Nil
  then show ?case by simp
next
  case (Cons t ts)
  have "reachable_tab b0 (tab_step b (Click t))" using Cons.prems by (rule reachable_tab.step)
  then show ?case using Cons.IH [of "tab_step b (Click t)"] by (simp add: dispatch_click_key)
qed

lemma load_single_saved:
  assumes "session b = Some m" and "m scroll_key = Some s" and "dec_to_nat s = Some n"
    and "sidebar_hosts d = [h]"
  shows "scroll_top (load_page d ctx mx b) = min n mx \<and> into_view (load_page d ctx mx b) = None \<and>
         session (load_page d ctx mx b) = Some (m(scroll_key := None))"
proof -
  let ?b1 = "sidebar_constructor h ((navigate d ctx mx b)\<lparr>registry := [sidebar_name]\<rparr>)"
  have ne: "s \<noteq> []" using assms(3) by (auto simp: dec_to_nat_def)
  have s': "session (callback_render h ?b1) = Some m" using assms(1) by (simp add: sidebar_constructor_def)
  have "connected_callback h ?b1 =
          Inr (wire_toggles ((callback_render h ?b1)\<lparr>session := Some (m(scroll_key := None)),
                  scroll_top := min (js_to_scroll s) mx\<rparr>))"
    using restore_scroll_saved [OF s' assms(2) ne]
    by (simp add: connected_callback_def sidebar_constructor_def navigate_def)
  moreover have "into_view (callback_render h ?b1) = None"
    by (simp add: callback_render_def sidebar_constructor_def navigate_def)
  ultimately show ?thesis using load_page_single [OF assms(4)] js_to_scroll_dec [OF assms(3)]
    by (simp add: report_def wire_toggles_def)
qed

lemma load_single_cleared:
  assumes "session b = Some m" and "sidebar_hosts d = [h]"
  shows "session (load_page d ctx mx b) = Some (m(scroll_key := None))"
proof -
  let ?b1 = "sidebar_constructor h ((navigate d ctx mx b)\<lparr>registry := [sidebar_name]\<rparr>)"
  have "session ?b1 = Some m" using assms(1) by (simp add: sidebar_constructor_def)
  then obtain b3 where "connected_callback h ?b1 = Inr (wire_toggles b3)" and "session b3 = Some (m(scroll_key := None))"
    using connected_callback_restore [of ?b1 m h] by blast
  then show ?thesis using load_page_single [OF assms(2)] by (simp add: report_def wire_toggles_def)
qed

lemma load_single_fallback:
  assumes "session b = Some m" and "m scroll_key = None" and "sidebar_hosts d = [h]"
  shows "into_view (load_page d ctx mx b) = active_section (doc (load_page d ctx mx b)) \<and>
         doc (load_page d ctx mx b) = render_toc ctx h d"
proof -
  let ?b1 = "sidebar_constructor h ((navigate d ctx mx b)\<lparr>registry := [sidebar_name]\<rparr>)"
  let ?b2 = "callback_render h ?b1"
  have s: "session ?b2 = Some m" using assms(1) by (simp add: sidebar_constructor_def)
  have r: "restore_scroll ?b2 = Inr (scroll_to_active (?b2\<lparr>session := Some (m(scroll_key := None))\<rparr>))"
    using s assms(2) by (simp add: restore_scroll_def storage_get_def storage_remove_def)
  have "into_view (scroll_to_active (?b2\<lparr>session := Some (m(scroll_key := None))\<rparr>)) = active_section (doc ?b2)"
    by (simp add: scroll_to_active_def navigate_def sidebar_constructor_def callback_render_def split: option.splits)
  then show ?thesis using load_page_single [OF assms(3)] r
    by (simp add: connected_callback_def report_def wire_toggles_def scroll_to_active_def
                  sidebar_constructor_def navigate_def split: option.splits)
qed

text \<open>C5. In every state a tab reaches by page loads, clicks and re-connections (from a start state whose offset is in range and whose stored value, if any, is a decimal numeral), loading a page with one sidebar element restores the sidebar to exactly the saved offset (clamped to the new range) and removes the key.\<close>

theorem load_restores_saved:
  assumes "reachable_tab b0 b" and "scroll_ok b0" and "stored_ok b0"
    and "session b = Some m" and "m scroll_key = Some s" and "sidebar_hosts d = [h]"
  shows "\<exists>n. dec_to_nat s = Some n \<and> scroll_top (load_page d ctx mx b) = min n mx \<and>
             session (load_page d ctx mx b) = Some (m(scroll_key := None))"
proof -
  have "stored_ok b" using reachable_tab_ok [OF assms(1-3)] by simp
  then obtain n where n: "dec_to_nat s = Some n" using assms(4,5) by (auto simp: stored_ok_def)
  show ?thesis using load_single_saved [OF assms(4,5) n assms(6), of ctx mx] n by blast
qed

subsection \<open>A stored offset outlives the clicks that do not navigate\<close>

text \<open>C16. Once a click on a sidebar link has stored the offset under 'sidebar-scroll', any number of further clicks (whether or not they navigate) keeps a decimal numeral stored there, and the next page load with a sidebar element sets scrollTop to exactly that stored number (clamped to the new range), never takes the scrollIntoView branch of lines 53-58, and removes the key, whatever started the navigation.\<close>

theorem stale_offset_restored:
  assumes "reachable_tab b0 b" and "scroll_ok b0" and "stored_ok b0" and "key_stored b"
    and "sidebar_hosts d = [h]"
  shows "\<exists>m s n. session (foldl tab_step b (map Click ts)) = Some m \<and> m scroll_key = Some s \<and>
           dec_to_nat s = Some n \<and>
           scroll_top (load_page d ctx mx (foldl tab_step b (map Click ts))) = min n mx \<and>
           into_view (load_page d ctx mx (foldl tab_step b (map Click ts))) = None \<and>
           session (load_page d ctx mx (foldl tab_step b (map Click ts))) = Some (m(scroll_key := None))"
proof -
  let ?b = "foldl tab_step b (map Click ts)"
  have r: "reachable_tab b0 ?b" and k: "key_stored ?b" using clicks_reachable [OF assms(1)] assms(4) by simp_all
  obtain m s where m: "session ?b = Some m" and s: "m scroll_key = Some s"
    using k by (auto simp: key_stored_def split: option.splits)
  have "stored_ok ?b" using reachable_tab_ok [OF r assms(2,3)] by simp
  then obtain n where n: "dec_to_nat s = Some n" using m s by (auto simp: stored_ok_def)
  then show ?thesis using load_single_saved [OF m s n assms(5)] m s by blast
qed

subsection \<open>Well-formed documents\<close>

lemma wf_callback: "wf_node (doc b) \<Longrightarrow> wf_node (doc (report (connected_callback h b)))"
  using report_callback_frame [of h b] by (simp add: wf_render_toc)

lemma wf_upgrade: "wf_node (doc b) \<Longrightarrow> wf_node (doc (upgrade h b))"
  by (simp add: upgrade_def Let_def sidebar_constructor_def wf_callback)

lemma wf_run_script: "wf_node (doc b) \<Longrightarrow> wf_node (doc (run_script b))"
proof -
  have "wf_node (doc b) \<Longrightarrow> wf_node (doc (fold upgrade hs b))" for hs b
    by (induction hs arbitrary: b) (simp_all add: wf_upgrade)
  then show "wf_node (doc b) \<Longrightarrow> wf_node (doc (run_script b))"
    by (simp add: run_script_def define_sidebar_def)
qed

lemma wf_handler_step: "wf_node (doc b) \<Longrightarrow> wf_node (doc (handler_step q t b hk))"
  by (cases hk) (auto simp: handler_step_def save_scroll_def storage_set_def toggle_section_def
                      intro: wf_update_at split: option.splits)

lemma wf_dispatch_click: "wf_node (doc b) \<Longrightarrow> wf_node (doc (dispatch_click t b))"
proof -
  have f: "wf_node (doc b) \<Longrightarrow> wf_node (doc (foldl (handler_step q t) b hs))" for q b hs
    by (induction hs arbitrary: b) (simp_all add: wf_handler_step)
  have "wf_node (doc b) \<Longrightarrow> wf_node (doc (dispatch_along t qs b))" for qs b
    by (induction qs arbitrary: b) (simp_all add: f)
  then show "wf_node (doc b) \<Longrightarrow> wf_node (doc (dispatch_click t b))" by (simp add: dispatch_click_def)
qed

lemma wf_tab_step: "wf_node (doc b) \<Longrightarrow> wf_event e \<Longrightarrow> wf_node (doc (tab_step b e))"
  by (cases e) (simp_all add: load_page_def wf_run_script navigate_def wf_dispatch_click connect_host_def
                              wf_callback wf_upgrade)

lemma tab_run_wf: "wf_node (doc b) \<Longrightarrow> list_all wf_event es \<Longrightarrow> wf_node (doc (foldl tab_step b es))"
  by (induction es arbitrary: b) (simp_all add: wf_tab_step)

subsection \<open>Without a click the key does not outlive one navigation\<close>

text \<open>C19. Two page loads with no click in between: the first consumes whatever offset was stored, so the second finds no key, takes the fallback of lines 53-58 and scrolls the first '#sidebar .active' element of its rendered sidebar into view; the key stays absent.\<close>

theorem second_load_scrolls_to_active:
  assumes "session b = Some m" and "sidebar_hosts d = [h]" and "sidebar_hosts d' = [h']"
  shows "into_view (load_page d' ctx' mx' (load_page d ctx mx b)) = active_section (render_toc ctx' h' d') \<and>
         session (load_page d' ctx' mx' (load_page d ctx mx b)) = Some (m(scroll_key := None))"
proof -
  have s1: "session (load_page d ctx mx b) = Some (m(scroll_key := None))"
    using load_single_cleared [OF assms(1,2)] .
  show ?thesis using load_single_fallback [OF s1 _ assms(3), of ctx' mx'] load_single_cleared [OF s1 assms(3)]
    by simp
qed

end
