(* ===== verification/Spec2Isabelle.thy ===== *)
theory Spec2Isabelle
  imports Tab
begin

text \<open>
  \<^bold>\<open>The mdBook sidebar script of helios-network/HIP.\<close>
  The repository's one source file, \<^verbatim>\<open>src/toc.js\<close>, defines the custom element
  class \<^verbatim>\<open>MDBookSidebarScrollbox\<close> (lines 6--69) and registers it as
  \<^verbatim>\<open>mdbook-sidebar-scrollbox\<close> (line 70). Its \<^verbatim>\<open>connectedCallback\<close> installs a
  fixed navigation tree, marks the link of the current page active and expands the list
  items above it, registers a click listener that saves the sidebar's scroll offset in
  session storage, restores a saved offset (or scrolls the active link into view), and
  registers listeners on toggle controls. The parts interact through the document (the
  tree the render writes is what the click listener and the scroll fallback read), through
  \<^verbatim>\<open>sessionStorage\<close> (written by a click on one page, read and cleared by the render of
  the next) and through the listener list (each run of the callback adds to it).

  \<^bold>\<open>Theories\<close>, in import order. Claims are named by their ids C1--C22.
  \<^item> \<open>Prelude\<close>: the model's type names (\<open>path\<close>, \<open>DOMString\<close>), the JavaScript
    string builtins the script calls, the whitespace tokeniser and joiner behind
    \<^verbatim>\<open>classList\<close> with their round trip, and list lemmas on prefixes.
  \<^item> \<open>Dom\<close>: the DOM as a tree of elements and text addressed by child-index paths
    (\<open>node_at\<close>, \<open>update_at\<close>), attributes, \<^verbatim>\<open>classList.add\<close> and
    \<^verbatim>\<open>toggle\<close>, \<^verbatim>\<open>tagName\<close>, \<^verbatim>\<open>parentElement\<close>,
    \<^verbatim>\<open>previousElementSibling\<close>, tree-order queries, and well-formed trees
    (\<open>wf_node\<close>: distinct attribute names). Library behaviour, from the DOM standard. Its
    lemmas: attribute-only updates keep the skeleton, so every structural query is
    unchanged; class add and toggle at one path change exactly one token there; an
    update at a path changes nothing outside that subtree.
  \<^item> \<open>Toc\<close> (line 11): \<open>toc_markup\<close> is the markup literal, \<open>toc_tree\<close> the tree
    the HTML parser builds from it; serializing the tree gives the literal back, and it
    holds no toggle control.
  \<^item> \<open>Html\<close>: the HTML fragment parser behind the \<^verbatim>\<open>innerHTML\<close> setter, for the
    subset of HTML the literal uses: the standard's tokenizer as a state machine
    (\<open>tk_step\<close> over \<open>tstate\<close>, one character at a time) and tree construction with a
    stack of open elements (\<open>build\<close>). It gives \<open>toc_tree\<close> on the literal, and it
    inverts the serializer on simple trees.
  \<^item> \<open>Url\<close> (lines 13--16, 22): \<open>current_page\<close> (C8), the regular expression
    of line 22 as \<open>abs_href\<close> with its equivalence to the regex language, the
    rewrite guard, the \<^verbatim>\<open>href\<close> getter over a URL parser \<open>resolve\<close>, and a simplified
    resolver \<open>resolve_url\<close> used only for concrete pages.
  \<^item> \<open>Sidebar\<close> (lines 10--41): \<open>render_toc\<close> installs the tree and runs
    \<open>activate_links\<close> over the anchors in tree order; \<open>visit_link\<close> is one iteration
    (rewrite, match of line 26, \<open>mark_active\<close>); \<open>install_toc\<close> is the
    assignment of line 11 through the parser. The \<^verbatim>\<open>while (parent)\<close> loop of lines
    32--39 is modelled twice: \<open>expand_ancestors\<close>, a \<^theory_text>\<open>function\<close> whose termination
    is proved by the measure \<open>Suc (length q)\<close>, and \<open>walk_loop\<close>, the loop as the source
    writes it with \<open>while_option\<close>; the two agree and the loop stops after depth + 1
    rounds (C12). The abstract specification is \<open>active_spec\<close>/\<open>matched_links\<close>
    (which links are active) and \<open>expands_for\<close> (which items a walk reaches): the render
    refines the first (C1) and guarantees the second (C2). The render leaves every
    attribute outside the element unchanged unless an ancestor of the element is an
    \<^verbatim>\<open>LI\<close> (C13), and keeps trees well-formed. On an index page at the book root
    the alias of line 26 marks the Glossary link, the first of the markup, whatever its
    target (C21).
  \<^item> \<open>Browser\<close>: the state record \<open>browser\<close> (document, page context, session
    storage or \<open>None\<close> when it throws, \<^verbatim>\<open>scrollTop\<close> and its maximum, listeners,
    element scrolled into view, reported errors, the custom element registry and the
    elements that are custom), storage operations with their \<^verbatim>\<open>SecurityError\<close>, and
    the number/string conversions with their round trip.
  \<^item> \<open>Scroll\<close> (lines 42--59): \<open>save_scroll\<close> (the listener body) and
    \<open>restore_scroll\<close>, each with its result on every branch (C11 for the fallback).
  \<^item> \<open>Toggle\<close> (lines 60--67): \<open>toggle_controls\<close>, \<open>toggle_section\<close>,
    \<open>wire_toggles\<close>; a toggle flips the parent's \<^verbatim>\<open>expanded\<close> only (C10).
  \<^item> \<open>Dispatch\<close>: the browser around the script, from the DOM and HTML standards:
    \<open>dispatch_click\<close> runs the listeners of target and ancestors in order, reporting a
    listener's exception and going on; \<open>navigate\<close> replaces the page, the listeners and
    the registry and keeps the session storage; \<open>detach_below\<close> drops the listeners of
    nodes an \<^verbatim>\<open>innerHTML\<close> assignment removes. A click on an anchor below the element
    stores the offset (C3); a click on a control flips its parent once per toggle listener
    it carries (C15), and with one listener it changes no other class (C18); without
    storage every scroll listener on the path reports a \<^verbatim>\<open>SecurityError\<close> (C20).
  \<^item> \<open>Element\<close> (lines 6--70): \<open>connected_callback\<close> composes the parts in the
    code's order with exceptions as \<open>Inl (e, state-at-throw)\<close> (C7, C9), and leaves
    exactly the listeners of lines 43 and 66, no toggle control lying inside the
    element (C22);
    \<open>sidebar_constructor\<close> is the constructor; \<open>define_sidebar\<close> is line 70, with
    the standard's upgrade of each element (\<open>upgrade\<close>) in tree order (C14) and its
    \<^verbatim>\<open>NotSupportedError\<close> for a name already defined; \<open>connect_host\<close> is a
    later connection of the element, which runs the callback again and adds listeners
    that are never removed (C17).
  \<^item> \<open>Tab\<close>: a tab over time, the inductive predicate \<open>reachable_tab\<close> over
    \<open>tab_step\<close> (a page load: \<open>navigate\<close> then the script; a click; a connection). By
    rule induction every reachable state keeps the offset within range and the stored
    value a decimal numeral (C6), so a page load restores exactly the saved offset and
    clears the key (C5), and a stored offset survives any clicks and is restored by the
    next load instead of the scroll-into-view fallback (C16), while two loads with no click
    between them end in that fallback (C19). Every run whose loaded
    documents are well-formed keeps the document well-formed.
  \<^item> This theory: a concrete page (\<open>example_page\<close>, element at \<open>sidebar_host\<close>),
    the HIP-2 and root page contexts, tab states, the witnesses, and the properties across
    components: the scroll round trip through a click, a navigation and the next render
    (C4), and two computed results on the example page: the five links marked active on
    the root page, and the walk from the HIP-2 link reaching the HIP-1 item.

  \<^bold>\<open>Bounds and termination.\<close> There is no fuel: the link loop is structural
  recursion over the list of anchors; the ancestor walk terminates by the length of the
  parent path, and its \<open>while_option\<close> form is proved to return \<open>Some\<close>; the
  tokeniser terminates by the length of the string, dispatch by the length of the
  propagation path, a run of a tab by the length of its event list. Scroll offsets are
  natural numbers clamped to \<open>scroll_max\<close> by the setter; the script never does
  arithmetic on them, so no width is modelled. The listener list has no bound: C17
  counts its growth.

  \<^bold>\<open>Not modelled.\<close> Layout: \<^verbatim>\<open>scrollIntoView\<close> is recorded as the element it
  was called on, not as a new offset. Fractional scroll offsets and the exponent and
  hexadecimal forms of JavaScript's number parsing (the script only stores whole-pixel
  offsets it wrote itself). The HTML parser beyond the subset of \<open>Html\<close>: other
  character references, unquoted attributes, comments, implied end tags and the error
  recovery of tree construction. The URL parser in general: theorems hold for any
  \<open>resolve\<close>. Capture-phase listeners and the other listener options, which the script
  does not use (\<^verbatim>\<open>passive\<close> has no effect on its behaviour). Storage quota errors on
  \<^verbatim>\<open>setItem\<close> other than unavailable storage. Elements are identified by their paths,
  so a connection is modelled at the element's place in the current document; a
  sidebar element nested inside another is not covered by C14. The global
  \<^verbatim>\<open>path_to_root\<close> is taken as defined, as mdBook defines it on every page before the
  script runs; without it line 23 would throw a \<^verbatim>\<open>ReferenceError\<close>.
\<close>

section \<open>Example documents\<close>

text \<open>A page of the book as mdBook lays it out: the custom element
  \<^verbatim>\<open><mdbook-sidebar-scrollbox>\<close> inside \<^verbatim>\<open><nav id="sidebar">\<close>, at path
  \<open>sidebar_host\<close>. Two page contexts: the HIP-2 page, four directories below the book
  root, and the book's root URL with a trailing slash.\<close>

definition example_page :: node where
  "example_page =
     Element ''html'' []
       [Element ''head'' [] [],
        Element ''body'' []
          [Element ''nav'' [(''id'', ''sidebar''), (''class'', ''sidebar'')]
             [Element ''mdbook-sidebar-scrollbox'' [(''class'', ''sidebar-scrollbox'')] []]]]"

definition sidebar_host :: path where
  "sidebar_host = [1, 0, 0]"

definition hip2_ctx :: page_ctx where
  "hip2_ctx =
     \<lparr>resolve = resolve_url ''https://hips.example.org/Approved/main/HIP/hip-2/index.html'',
      path_to_root = ''../../../../'',
      location = ''https://hips.example.org/Approved/main/HIP/hip-2/index.html''\<rparr>"

definition index_ctx :: page_ctx where
  "index_ctx =
     \<lparr>resolve = resolve_url ''https://hips.example.org/'',
      path_to_root = [],
      location = ''https://hips.example.org/''\<rparr>"

text \<open>A tab showing the HIP-2 page with the navigation installed, the click listener
  registered on the element, an empty session storage, and the sidebar scrolled down
  120 pixels of 500.\<close>

definition clicked_tab :: browser where
  "clicked_tab =
     \<lparr>doc = install_toc sidebar_host example_page, page = hip2_ctx, session = Some Map.empty,
      scroll_top = 120, scroll_max = 500, listeners = [(sidebar_host, Save_scroll)],
      into_view = None, errors = [], registry = [sidebar_name], custom = [sidebar_host]\<rparr>"

text \<open>The same tab after a click on the Glossary link stored the offset 120.\<close>

definition saved_tab :: browser where
  "saved_tab = clicked_tab\<lparr>session := Some [scroll_key \<mapsto> ''120'']\<rparr>"

section \<open>Witnesses and whole-page results\<close>

text \<open>The expansion property on the HIP-2 page: the HIP-2 link is active, and the chapter item \<^verbatim>\<open>HIPs\<close>
  that heads its section is among the items the walk expands.\<close>

theorem render_toc_expanded_witness:
  "[1, 0, 0, 0, 2, 0, 1, 0, 1, 0] \<in> set (active_spec hip2_ctx sidebar_host example_page) \<and>
   expands_for (install_toc sidebar_host example_page) [1, 0, 0, 0, 2, 0, 1, 0, 1, 0] [1, 0, 0, 0, 2, 0, 0] \<and>
   class_at (render_toc hip2_ctx sidebar_host example_page) [1, 0, 0, 0, 2, 0, 0] ''expanded''"
proof -
  have a: "[1, 0, 0, 0, 2, 0, 1, 0, 1, 0] \<in> set (active_spec hip2_ctx sidebar_host example_page)"
    by code_simp
  have e: "expands_for (install_toc sidebar_host example_page) [1, 0, 0, 0, 2, 0, 1, 0, 1, 0] [1, 0, 0, 0, 2, 0, 0]"
    by code_simp
  show ?thesis using Sidebar.render_toc_expanded [OF a e] a e by simp
qed

text \<open>The directory-index completion at the \<^verbatim>\<open>Approved\<close> directory: with and without the index document.\<close>

theorem current_page_dir_index_witness:
  "CHR ''#'' \<notin> set ''https://hips.example.org/Approved'' \<and>
   current_page ''https://hips.example.org/Approved/'' =
   current_page ''https://hips.example.org/Approved/index.html''"
proof -
  have h: "CHR ''#'' \<notin> set ''https://hips.example.org/Approved''" by simp
  show ?thesis using Url.current_page_dir_index [OF h] h by simp
qed

text \<open>On the book's root page the render marks five links active: the four links to
  \<^verbatim>\<open>index.html\<close> (\<^verbatim>\<open>Approved\<close>, \<^verbatim>\<open>HIPs\<close>, \<^verbatim>\<open>HDs\<close>,
  \<^verbatim>\<open>Review\<close>) resolve to the current page, and the first link (\<^verbatim>\<open>Glossary\<close>) is
  the alias of line 26.\<close>

lemma index_page_active_links:
  "filter (\<lambda>q. class_at (render_toc index_ctx sidebar_host example_page) q ''active'')
     (anchors (install_toc sidebar_host example_page) sidebar_host) =
   [[1, 0, 0, 0, 0, 0], [1, 0, 0, 0, 1, 0], [1, 0, 0, 0, 2, 0, 0, 0], [1, 0, 0, 0, 2, 0, 2, 0],
    [1, 0, 0, 0, 3, 0]]"
  by code_simp

subsection \<open>Scroll position across a navigation\<close>

text \<open>A click on a sidebar link, the navigation it starts, and the render of the next
  page: the new sidebar is scrolled to the offset the old one had at the click, and the
  storage key is gone.\<close>

text \<open>C4. A click on a sidebar link, a navigation that keeps session storage, and the next page's connectedCallback restore the sidebar to the scroll offset it had at the click (when it fits the new page's range) and leave no 'sidebar-scroll' key behind.\<close>

theorem scroll_round_trip:
  assumes "session b = Some m" and "(h, Save_scroll) \<in> set (listeners b)" and "prefix h t"
    and "tag_at (doc b) t = Some ''A''" and "scroll_top b \<le> mx"
  shows "\<exists>b'. connected_callback h' (navigate d ctx mx (dispatch_click t b)) = Inr b' \<and>
           scroll_top b' = scroll_top b \<and> session b' = Some (m(scroll_key := None))"
proof -
  let ?v = "nat_to_dec (scroll_top b)"
  let ?b2 = "navigate d ctx mx (dispatch_click t b)"
  have "session (dispatch_click t b) = Some (m(scroll_key \<mapsto> ?v))"
    using assms(1-4) by (rule Dispatch.dispatch_click_session)
  then have s: "session ?b2 = Some (m(scroll_key \<mapsto> ?v))" by simp
  have mx: "scroll_max ?b2 = mx" by (simp add: navigate_def)
  obtain b' where b': "connected_callback h' ?b2 = Inr b'"
    and st: "scroll_top b' = min (js_to_scroll ?v) mx" and ss: "session b' = Some (m(scroll_key := None))"
    using Element.connected_callback_saved [OF s, of ?v h'] mx nat_to_dec_ne by auto
  have "scroll_top b' = scroll_top b" using st assms(5) by (simp add: js_to_scroll_dec dec_to_nat_nat_to_dec)
  with b' ss show ?thesis by blast
qed

theorem scroll_round_trip_witness:
  "session clicked_tab = Some Map.empty \<and> (sidebar_host, Save_scroll) \<in> set (listeners clicked_tab) \<and>
   prefix sidebar_host [1, 0, 0, 0, 0, 0] \<and> tag_at (doc clicked_tab) [1, 0, 0, 0, 0, 0] = Some ''A'' \<and>
   scroll_top clicked_tab \<le> 500 \<and>
   (\<exists>b'. connected_callback sidebar_host (navigate example_page index_ctx 500 (dispatch_click [1, 0, 0, 0, 0, 0] clicked_tab)) = Inr b' \<and>
         scroll_top b' = 120 \<and> session b' = Some (Map.empty(scroll_key := None)))"
proof -
  have h1: "session clicked_tab = Some Map.empty" by (simp add: clicked_tab_def)
  have h2: "(sidebar_host, Save_scroll) \<in> set (listeners clicked_tab)" by (simp add: clicked_tab_def)
  have h3: "prefix sidebar_host [1, 0, 0, 0, 0, 0]" by (simp add: sidebar_host_def)
  have h4: "tag_at (doc clicked_tab) [1, 0, 0, 0, 0, 0] = Some ''A''" by code_simp
  have h5: "scroll_top clicked_tab \<le> 500" by (simp add: clicked_tab_def)
  have st: "scroll_top clicked_tab = 120" by (simp add: clicked_tab_def)
  show ?thesis
    using scroll_round_trip [OF h1 h2 h3 h4 h5, of sidebar_host example_page index_ctx] h1 h2 h3 h4 h5 st
    by simp
qed

text \<open>The click on the Glossary link of the installed navigation.\<close>

theorem click_saves_scroll_witness:
  "session clicked_tab = Some Map.empty \<and> (sidebar_host, Save_scroll) \<in> set (listeners clicked_tab) \<and>
   prefix sidebar_host [1, 0, 0, 0, 0, 0] \<and> tag_at (doc clicked_tab) [1, 0, 0, 0, 0, 0] = Some ''A'' \<and>
   session (dispatch_click [1, 0, 0, 0, 0, 0] clicked_tab) = Some (Map.empty(scroll_key \<mapsto> ''120''))"
proof -
  have h1: "session clicked_tab = Some Map.empty" by (simp add: clicked_tab_def)
  have h2: "(sidebar_host, Save_scroll) \<in> set (listeners clicked_tab)" by (simp add: clicked_tab_def)
  have h3: "prefix sidebar_host [1, 0, 0, 0, 0, 0]" by (simp add: sidebar_host_def)
  have h4: "tag_at (doc clicked_tab) [1, 0, 0, 0, 0, 0] = Some ''A''" by code_simp
  have v: "nat_to_dec (scroll_top clicked_tab) = ''120''" by (simp add: clicked_tab_def) code_simp
  show ?thesis using Dispatch.click_saves_scroll [OF h1 h2 h3 h4] h1 h2 h3 h4 v by simp
qed

subsection \<open>The callback's storage paths\<close>

theorem connected_callback_clears_key_witness:
  "session clicked_tab = Some Map.empty \<and>
   (\<exists>b'. connected_callback sidebar_host clicked_tab = Inr b' \<and>
         session b' = Some (Map.empty(scroll_key := None)))"
proof -
  have h: "session clicked_tab = Some Map.empty" by (simp add: clicked_tab_def)
  show ?thesis using Element.connected_callback_clears_key [OF h, of sidebar_host] h by blast
qed

theorem connected_callback_storage_error_witness:
  "session (clicked_tab\<lparr>session := None\<rparr>) = None \<and>
   connected_callback sidebar_host (clicked_tab\<lparr>session := None\<rparr>) =
     Inl (SecurityError,
          clicked_tab\<lparr>session := None,
            doc := render_toc hip2_ctx sidebar_host (doc clicked_tab),
            listeners := [(sidebar_host, Save_scroll), (sidebar_host, Save_scroll)]\<rparr>)"
proof -
  have h: "session (clicked_tab\<lparr>session := None\<rparr>) = None" by simp
  show ?thesis
    using Element.connected_callback_storage_error [OF h, of sidebar_host] h
    by (simp add: clicked_tab_def callback_render_def detach_below_def)
qed

subsection \<open>Toggles\<close>

theorem toggle_section_flips_witness:
  "[1, 0, 0, 0, 0, 0] \<noteq> ([] :: path) \<and>
   (\<exists>b'. toggle_section [1, 0, 0, 0, 0, 0] clicked_tab = Inr b' \<and>
      (\<forall>q u. class_at (doc b') q u \<longleftrightarrow>
         (if q = butlast [1, 0, 0, 0, 0, 0] \<and> u = ''expanded'' \<and> elem_at (doc clicked_tab) q
          then \<not> class_at (doc clicked_tab) q u else class_at (doc clicked_tab) q u)))"
proof -
  have h: "[1, 0, 0, 0, 0, 0] \<noteq> ([] :: path)" by simp
  show ?thesis using Toggle.toggle_section_flips [OF h, of clicked_tab] h by blast
qed

subsection \<open>Restoring without a saved offset\<close>

text \<open>The fallback on the rendered HIP-2 page with an empty storage: the HIP-2 link is the
  first \<^verbatim>\<open>#sidebar .active\<close> element and is scrolled into view.\<close>

theorem restore_scroll_fallback_witness:
  "restore_scroll (clicked_tab\<lparr>doc := render_toc hip2_ctx sidebar_host example_page\<rparr>) =
     Inr (clicked_tab\<lparr>doc := render_toc hip2_ctx sidebar_host example_page,
                     into_view := Some [1, 0, 0, 0, 2, 0, 1, 0, 1, 0]\<rparr>)"
proof -
  let ?b = "clicked_tab\<lparr>doc := render_toc hip2_ctx sidebar_host example_page\<rparr>"
  have s: "session ?b = Some Map.empty" by (simp add: clicked_tab_def)
  have k: "Map.empty scroll_key = (None :: string option) \<or> Map.empty scroll_key = Some []" by simp
  have f: "find (\<lambda>q. class_at (render_toc hip2_ctx sidebar_host example_page) q ''active'' \<and>
                    under_id (render_toc hip2_ctx sidebar_host example_page) ''sidebar'' q)
             (elem_paths (render_toc hip2_ctx sidebar_host example_page)) = Some [1, 0, 0, 0, 2, 0, 1, 0, 1, 0]"
    by code_simp
  show ?thesis using Scroll.restore_scroll_fallback [OF s k] f by (simp add: clicked_tab_def)
qed

subsection \<open>What the ancestor walk reaches\<close>

text \<open>The walk of lines 32--39 starts at the link's own list item, so for the HIP-2 link
  it expands the previous sibling of that item: the HIP-1 chapter item, which is not an
  ancestor of the link.\<close>

lemma hip2_walk_expands_hip1:
  "expands_for (install_toc sidebar_host example_page) [1, 0, 0, 0, 2, 0, 1, 0, 1, 0] [1, 0, 0, 0, 2, 0, 1, 0, 0] \<and>
   \<not> prefix ([1, 0, 0, 0, 2, 0, 1, 0, 0] :: path) [1, 0, 0, 0, 2, 0, 1, 0, 1, 0]"
  by code_simp

subsection \<open>A tab over time\<close>

theorem reachable_tab_inv_witness:
  "reachable_tab clicked_tab
     (tab_step (tab_step clicked_tab (Click [1, 0, 0, 0, 0, 0])) (Load example_page index_ctx 500)) \<and>
   scroll_ok clicked_tab \<and> stored_ok clicked_tab \<and>
   scroll_ok (tab_step (tab_step clicked_tab (Click [1, 0, 0, 0, 0, 0])) (Load example_page index_ctx 500)) \<and>
   stored_ok (tab_step (tab_step clicked_tab (Click [1, 0, 0, 0, 0, 0])) (Load example_page index_ctx 500))"
proof -
  have r: "reachable_tab clicked_tab
     (tab_step (tab_step clicked_tab (Click [1, 0, 0, 0, 0, 0])) (Load example_page index_ctx 500))"
    by (intro reachable_tab.step reachable_tab.start)
  have o: "scroll_ok clicked_tab" by (simp add: clicked_tab_def scroll_ok_def)
  have s: "stored_ok clicked_tab" by (simp add: clicked_tab_def stored_ok_def)
  show ?thesis using Tab.reachable_tab_inv [OF r o s] r o s by simp
qed

theorem load_restores_saved_witness:
  "reachable_tab saved_tab saved_tab \<and> scroll_ok saved_tab \<and> stored_ok saved_tab \<and>
   session saved_tab = Some [scroll_key \<mapsto> ''120''] \<and> [scroll_key \<mapsto> ''120''] scroll_key = Some ''120'' \<and>
   sidebar_hosts example_page = [sidebar_host] \<and>
   scroll_top (load_page example_page index_ctx 500 saved_tab) = 120 \<and>
   session (load_page example_page index_ctx 500 saved_tab) = Some ([scroll_key \<mapsto> ''120''](scroll_key := None))"
proof -
  have r: "reachable_tab saved_tab saved_tab" by (rule reachable_tab.start)
  have o: "scroll_ok saved_tab" by (simp add: saved_tab_def clicked_tab_def scroll_ok_def)
  have d: "dec_to_nat ''120'' = Some 120" by code_simp
  have st: "stored_ok saved_tab" by (simp add: saved_tab_def clicked_tab_def stored_ok_def d)
  have se: "session saved_tab = Some [scroll_key \<mapsto> ''120'']" by (simp add: saved_tab_def clicked_tab_def)
  have k: "[scroll_key \<mapsto> ''120''] scroll_key = Some ''120''" by simp
  have h: "sidebar_hosts example_page = [sidebar_host]" by code_simp
  show ?thesis
    using Tab.load_restores_saved [OF r o st se k h, of index_ctx 500] r o st se k h d by auto
qed

subsection \<open>The frame of the render and the registration\<close>

theorem render_toc_frame_witness:
  "tag_at example_page [] = Some ''HTML'' \<and> tag_at example_page [1] = Some ''BODY'' \<and>
   tag_at example_page [1, 0] = Some ''NAV'' \<and>
   tag_at example_page sidebar_host = Some ''MDBOOK-SIDEBAR-SCROLLBOX'' \<and>
   \<not> prefix sidebar_host [1, 0] \<and>
   attrs_at (render_toc hip2_ctx sidebar_host example_page) [1, 0] = Some [(''id'', ''sidebar''), (''class'', ''sidebar'')]"
proof -
  have t: "\<forall>k \<le> length sidebar_host. tag_at example_page (take k sidebar_host) \<noteq> Some ''LI''"
    by (auto simp: sidebar_host_def numeral_3_eq_3 le_Suc_eq example_page_def tag_at_def)
  have p: "\<not> prefix sidebar_host [1, 0]" by (simp add: sidebar_host_def)
  have a: "attrs_at example_page [1, 0] = Some [(''id'', ''sidebar''), (''class'', ''sidebar'')]"
    by (simp add: example_page_def attrs_at_def)
  have tags: "tag_at example_page [] = Some ''HTML'' \<and> tag_at example_page [1] = Some ''BODY'' \<and>
    tag_at example_page [1, 0] = Some ''NAV'' \<and>
    tag_at example_page sidebar_host = Some ''MDBOOK-SIDEBAR-SCROLLBOX''"
    by code_simp
  show ?thesis using Sidebar.render_toc_frame [OF t p, of hip2_ctx] tags p a by simp
qed

theorem define_sidebar_upgrades_witness:
  "sidebar_name \<notin> set (registry (navigate example_page hip2_ctx 500 saved_tab)) \<and>
   custom (navigate example_page hip2_ctx 500 saved_tab) = [] \<and>
   sidebar_hosts example_page = [sidebar_host] \<and>
   (\<exists>b'. define_sidebar (navigate example_page hip2_ctx 500 saved_tab) = Inr b' \<and>
      registry b' = [sidebar_name] \<and> custom b' = [sidebar_host] \<and> (sidebar_host, Save_scroll) \<in> set (listeners b'))"
proof -
  have h: "sidebar_hosts example_page = [sidebar_host]" by code_simp
  have r: "sidebar_name \<notin> set (registry (navigate example_page hip2_ctx 500 saved_tab))"
    by (simp add: navigate_def)
  have c: "custom (navigate example_page hip2_ctx 500 saved_tab) = []" by (simp add: navigate_def)
  have n: "\<forall>h1 \<in> set (sidebar_hosts (doc (navigate example_page hip2_ctx 500 saved_tab))).
             \<forall>h2 \<in> set (sidebar_hosts (doc (navigate example_page hip2_ctx 500 saved_tab))). \<not> strict_prefix h1 h2"
    by (simp add: navigate_def h)
  show ?thesis using Element.define_sidebar_upgrades [OF r c n] r c n h by (simp add: navigate_def)
qed

subsection \<open>A toggle control wired twice\<close>

theorem click_toggle_parity_witness:
  "elem_at (doc clicked_tab) [1, 0, 0, 0, 0, 0] \<and> [1, 0, 0, 0, 0, 0] \<noteq> ([] :: path) \<and>
   (class_at (doc (dispatch_click [1, 0, 0, 0, 0, 0]
       (clicked_tab\<lparr>listeners := [([1, 0, 0, 0, 0, 0], Toggle_section), ([1, 0, 0, 0, 0, 0], Toggle_section)]\<rparr>)))
       [1, 0, 0, 0, 0] ''expanded'' \<longleftrightarrow>
    class_at (doc clicked_tab) [1, 0, 0, 0, 0] ''expanded'')"
proof -
  let ?b = "clicked_tab\<lparr>listeners := [([1, 0, 0, 0, 0, 0], Toggle_section), ([1, 0, 0, 0, 0, 0], Toggle_section)]\<rparr>"
  have e: "elem_at (doc clicked_tab) [1, 0, 0, 0, 0, 0]"
    by (simp add: clicked_tab_def) code_simp
  have e': "elem_at (doc ?b) [1, 0, 0, 0, 0, 0]" using e by simp
  have n: "[1, 0, 0, 0, 0, 0] \<noteq> ([] :: path)" by simp
  have c: "count_list (handlers_on [1, 0, 0, 0, 0, 0] ?b) Toggle_section = 2"
    by (simp add: handlers_on_def)
  show ?thesis using Dispatch.click_toggle_parity [OF e' n] e n c by simp
qed

subsection \<open>A stale offset\<close>

theorem stale_offset_restored_witness:
  "\<exists>m s n. session (foldl tab_step saved_tab (map Click [[1, 0, 0, 0, 2, 0, 0], [1, 0, 0, 0, 0, 0]])) = Some m \<and>
     m scroll_key = Some s \<and> dec_to_nat s = Some n \<and>
     scroll_top (load_page example_page index_ctx 500
        (foldl tab_step saved_tab (map Click [[1, 0, 0, 0, 2, 0, 0], [1, 0, 0, 0, 0, 0]]))) = min n 500 \<and>
     into_view (load_page example_page index_ctx 500
        (foldl tab_step saved_tab (map Click [[1, 0, 0, 0, 2, 0, 0], [1, 0, 0, 0, 0, 0]]))) = None \<and>
     session (load_page example_page index_ctx 500
        (foldl tab_step saved_tab (map Click [[1, 0, 0, 0, 2, 0, 0], [1, 0, 0, 0, 0, 0]]))) = Some (m(scroll_key := None))"
proof -
  have r: "reachable_tab saved_tab saved_tab" by (rule reachable_tab.start)
  have o: "scroll_ok saved_tab" by (simp add: saved_tab_def clicked_tab_def scroll_ok_def)
  have d: "dec_to_nat ''120'' = Some 120" by code_simp
  have st: "stored_ok saved_tab" by (simp add: saved_tab_def clicked_tab_def stored_ok_def d)
  have k: "key_stored saved_tab" by (simp add: saved_tab_def clicked_tab_def key_stored_def)
  have h: "sidebar_hosts example_page = [sidebar_host]" by code_simp
  show ?thesis using Tab.stale_offset_restored [OF r o st k h] .
qed

subsection \<open>Listeners accumulate\<close>

theorem reconnect_adds_listener_witness:
  "count_list (handlers_on sidebar_host ((connect_host sidebar_host ^^ 2) clicked_tab)) Save_scroll = 3"
proof -
  have r: "sidebar_name \<in> set (registry clicked_tab)" by (simp add: clicked_tab_def)
  have c: "sidebar_host \<in> set (custom clicked_tab)" by (simp add: clicked_tab_def)
  have h: "is_host (doc clicked_tab) sidebar_host" by (simp add: clicked_tab_def) code_simp
  have n: "count_list (handlers_on sidebar_host clicked_tab) Save_scroll = 1"
    by (simp add: clicked_tab_def handlers_on_def)
  show ?thesis using Element.reconnect_adds_listener [OF r c h, of 2] n by simp
qed

theorem click_toggle_flips_only_witness:
  "class_at (doc (dispatch_click [1, 0, 0, 0, 0, 0]
       (clicked_tab\<lparr>listeners := [(sidebar_host, Save_scroll), ([1, 0, 0, 0, 0, 0], Toggle_section)]\<rparr>)))
       [1, 0, 0, 0, 0] ''expanded'' \<longleftrightarrow>
     \<not> class_at (doc clicked_tab) [1, 0, 0, 0, 0] ''expanded''"
proof -
  let ?b = "clicked_tab\<lparr>listeners := [(sidebar_host, Save_scroll), ([1, 0, 0, 0, 0, 0], Toggle_section)]\<rparr>"
  have e: "elem_at (doc ?b) [1, 0, 0, 0, 0, 0]"
    by (simp add: clicked_tab_def) code_simp
  have n: "[1, 0, 0, 0, 0, 0] \<noteq> ([] :: path)" by simp
  have c: "count_list (handlers_on [1, 0, 0, 0, 0, 0] ?b) Toggle_section = 1"
    by (simp add: handlers_on_def sidebar_host_def)
  have a: "\<forall>q. strict_prefix q [1, 0, 0, 0, 0, 0] \<longrightarrow> Toggle_section \<notin> set (handlers_on q ?b)"
    by (auto simp: handlers_on_def strict_prefix_def)
  show ?thesis using Dispatch.click_toggle_flips_only [OF e n c a, of "[1, 0, 0, 0, 0]" "''expanded''"] by simp
qed

subsection \<open>Two loads in a row\<close>

theorem second_load_scrolls_to_active_witness:
  "into_view (load_page example_page index_ctx 500 (load_page example_page hip2_ctx 500 saved_tab)) =
     active_section (render_toc index_ctx sidebar_host example_page) \<and>
   session (load_page example_page index_ctx 500 (load_page example_page hip2_ctx 500 saved_tab)) =
     Some ([scroll_key \<mapsto> ''120''](scroll_key := None))"
proof -
  have s: "session saved_tab = Some [scroll_key \<mapsto> ''120'']" by (simp add: saved_tab_def clicked_tab_def)
  have h: "sidebar_hosts example_page = [sidebar_host]" by code_simp
  show ?thesis using Tab.second_load_scrolls_to_active [OF s h h, of index_ctx 500 hip2_ctx 500] .
qed

subsection \<open>Clicks without storage\<close>

theorem click_storage_disabled_witness:
  "errors (dispatch_click [1, 0, 0, 0, 0, 0] (clicked_tab\<lparr>session := None\<rparr>)) = [SecurityError] \<and>
   session (dispatch_click [1, 0, 0, 0, 0, 0] (clicked_tab\<lparr>session := None\<rparr>)) = None"
proof -
  let ?b = "clicked_tab\<lparr>session := None\<rparr>"
  have s: "session ?b = None" by simp
  have a: "tag_at (doc ?b) [1, 0, 0, 0, 0, 0] = Some ''A''" by (simp add: clicked_tab_def) code_simp
  have n: "Toggle_section \<notin> set (handlers_on [] ?b)" by (simp add: clicked_tab_def handlers_on_def sidebar_host_def)
  have c: "sum_list (map (\<lambda>q. count_list (handlers_on q ?b) Save_scroll) (propagation_path [1, 0, 0, 0, 0, 0])) = 1"
    by (simp add: clicked_tab_def handlers_on_def sidebar_host_def propagation_path_def upt_rec)
  have e: "errors ?b = []" by (simp add: clicked_tab_def)
  show ?thesis using Dispatch.click_storage_disabled [OF s a n] c e by simp
qed

subsection \<open>The index alias\<close>

theorem render_toc_index_alias_witness:
  "class_at (render_toc index_ctx sidebar_host example_page) [1, 0, 0, 0, 0, 0] ''active'' \<and>
   attr_at (install_toc sidebar_host example_page) [1, 0, 0, 0, 0, 0] ''href'' = Some ''GLOSSARY.html''"
proof -
  have e: "elem_at example_page sidebar_host" by code_simp
  have p: "path_to_root index_ctx = []" by (simp add: index_ctx_def)
  have c: "js_ends_with (current_page (location index_ctx)) ''/index.html''"
    by (simp add: index_ctx_def) code_simp
  show ?thesis using Sidebar.render_toc_index_alias [OF e p c] by (simp add: sidebar_host_def)
qed

subsection \<open>The listeners a connection leaves\<close>

text \<open>Connecting the sidebar element of the HIP-2 tab once more: the page has no toggle
  control, so the element ends with two click listeners and nothing else.\<close>

theorem connected_callback_listeners_witness:
  "\<exists>b'. connected_callback sidebar_host clicked_tab = Inr b' \<and>
     listeners b' = [(sidebar_host, Save_scroll), (sidebar_host, Save_scroll)]"
proof -
  have s: "session clicked_tab = Some Map.empty" by (simp add: clicked_tab_def)
  have t: "toggle_controls (render_toc hip2_ctx sidebar_host (install_toc sidebar_host example_page)) = []"
    by code_simp
  show ?thesis using Element.connected_callback_listeners [OF s, of sidebar_host] t
    by (auto simp: clicked_tab_def detach_below_def)
qed

end
